theory Spec2Isabelle
  imports Complex_Main
begin

section \<open>The streaming writer of plotly.py\<close>

text \<open>
  A shallow embedding of the class \<^verbatim>\<open>StreamWriter\<close> of
  \<^verbatim>\<open>plotly/plotly/plotly.py\<close>. Instance attributes are the fields of a record (the
  leading underscore of the private ones is dropped), every method takes the instance
  and returns it updated, and an exception is a value returned beside the instance, since
  the attributes a method has assigned before it raises stay assigned.

  The class hands text \<^verbatim>\<open>str\<close> objects to the transport and orders \<^verbatim>\<open>None\<close>
  against an integer (\<^verbatim>\<open>status >= 500\<close> with the default ignorable status
  \<^verbatim>\<open>None\<close>); only Python 2 admits both, and the module imports \<^verbatim>\<open>trollius\<close>,
  the Python 2 port of asyncio. The embedding therefore follows Python 2: \<^verbatim>\<open>str\<close> is a
  byte string, \<^verbatim>\<open>unicode\<close> a sequence of code points, and \<^verbatim>\<open>None\<close> is smaller
  than every integer. Times are real numbers.
\<close>

subsection \<open>Python values\<close>

text \<open>A Python 2 string: a byte string or a sequence of code points.\<close>

datatype pystr = Str string | Unicode "nat list"

text \<open>
  Exceptions. A built-in or library exception is given by the names of the classes of its
  method resolution order, which is all that \<^verbatim>\<open>isinstance\<close> and \<^verbatim>\<open>except\<close> look
  at. The two exceptions the class raises itself come from \<^verbatim>\<open>plotly.exceptions\<close>.
\<close>

datatype pyexc =
    ClosedConnection string "int option"
  | TooManyConnectFailures
  | PyExc "string list"

fun mro :: "pyexc \<Rightarrow> string list" where
  "mro (PyExc cs) = cs"
| "mro (ClosedConnection m st) = [''ClosedConnection'', ''Exception'', ''BaseException'', ''object'']"
| "mro TooManyConnectFailures = [''TooManyConnectFailures'', ''Exception'', ''BaseException'', ''object'']"

definition isinstance_of :: "pyexc \<Rightarrow> string list \<Rightarrow> bool" where
  "isinstance_of e classes = list_ex (\<lambda>c. c \<in> set (mro e)) classes"

definition TypeError :: pyexc where
  "TypeError = PyExc [''TypeError'', ''StandardError'', ''Exception'', ''BaseException'', ''object'']"

definition AttributeError :: pyexc where
  "AttributeError = PyExc [''AttributeError'', ''StandardError'', ''Exception'', ''BaseException'', ''object'']"

definition IndexError :: pyexc where
  "IndexError = PyExc [''IndexError'', ''LookupError'', ''StandardError'', ''Exception'', ''BaseException'', ''object'']"

definition UnicodeEncodeError :: pyexc where
  "UnicodeEncodeError = PyExc [''UnicodeEncodeError'', ''UnicodeError'', ''ValueError'',
     ''StandardError'', ''Exception'', ''BaseException'', ''object'']"

definition UnicodeDecodeError :: pyexc where
  "UnicodeDecodeError = PyExc [''UnicodeDecodeError'', ''UnicodeError'', ''ValueError'',
     ''StandardError'', ''Exception'', ''BaseException'', ''object'']"

definition socket_error :: pyexc where
  "socket_error = PyExc [''socket.error'', ''IOError'', ''EnvironmentError'',
     ''StandardError'', ''Exception'', ''BaseException'', ''object'']"

definition BadStatusLine :: pyexc where
  "BadStatusLine = PyExc [''BadStatusLine'', ''HTTPException'', ''Exception'', ''BaseException'', ''object'']"

text \<open>What a method returns: the exception it raised, if any, and the instance.\<close>

type_synonym 'a outcome = "pyexc option \<times> 'a"

subsection \<open>collections.deque with maxlen\<close>

record 'a deque =
  items :: "'a list"
  maxlen :: nat

text \<open>
  \<^verbatim>\<open>deque(maxlen=n)\<close>; a negative \<^verbatim>\<open>n\<close> is refused by the constructor, so the bound is
  a natural number. The head of \<open>items\<close> is the left end.
\<close>

definition deque_new :: "nat \<Rightarrow> 'a deque" where
  "deque_new n = \<lparr>items = [], maxlen = n\<rparr>"

text \<open>\<^verbatim>\<open>appendleft\<close>: insert at the left end, then trim at the right end.\<close>

definition appendleft :: "'a \<Rightarrow> 'a deque \<Rightarrow> 'a deque" where
  "appendleft x d =
     (let xs = x # items d
      in if maxlen d < length xs then d\<lparr>items := butlast xs\<rparr> else d\<lparr>items := xs\<rparr>)"

text \<open>\<^verbatim>\<open>pop\<close>: remove and return the item at the right end.\<close>

definition pop :: "'a deque \<Rightarrow> pyexc + ('a \<times> 'a deque)" where
  "pop d =
     (if items d = [] then Inl IndexError
      else Inr (last (items d), d\<lparr>items := butlast (items d)\<rparr>))"

subsection \<open>String operations of Python 2\<close>

definition len :: "pystr \<Rightarrow> nat" where
  "len c = (case c of Str b \<Rightarrow> length b | Unicode u \<Rightarrow> length u)"

text \<open>\<^verbatim>\<open>chunk + '\n'\<close>\<close>

definition add_newline :: "pystr \<Rightarrow> pystr" where
  "add_newline c = (case c of Str b \<Rightarrow> Str (b @ [CHR 0x0A]) | Unicode u \<Rightarrow> Unicode (u @ [10]))"

definition hex_digit :: "nat \<Rightarrow> char" where
  "hex_digit d = ''0123456789abcdef'' ! d"

text \<open>\<^verbatim>\<open>format(n, 'x')\<close>: lower-case hexadecimal, no prefix.\<close>

function format_x :: "nat \<Rightarrow> string" where
  "format_x n = (if n < 16 then [hex_digit n] else format_x (n div 16) @ [hex_digit (n mod 16)])"
  by pat_completeness auto
termination
  by (relation "measure id") auto

declare format_x.simps [simp del]

definition ascii :: "string \<Rightarrow> bool" where
  "ascii b = list_all (\<lambda>c. (of_char c :: nat) < 128) b"

text \<open>
  \<^verbatim>\<open>'{}\r\n{}\r\n'.format(hex_len, chunk)\<close>: the template is a byte string, so a
  \<^verbatim>\<open>unicode\<close> argument is encoded with the ASCII codec.
\<close>

definition format_message :: "string \<Rightarrow> pystr \<Rightarrow> pyexc + string" where
  "format_message hex_len c =
     (case c of
        Str b \<Rightarrow> Inr (hex_len @ [CHR 0x0D, CHR 0x0A] @ b @ [CHR 0x0D, CHR 0x0A])
      | Unicode u \<Rightarrow>
          if list_all (\<lambda>p. p < 128) u
          then Inr (hex_len @ [CHR 0x0D, CHR 0x0A] @ map char_of u @ [CHR 0x0D, CHR 0x0A])
          else Inl UnicodeEncodeError)"

text \<open>
  \<^verbatim>\<open>message.encode('utf-8')\<close> on a byte string: it is decoded with the ASCII codec
  first, and the UTF-8 encoding of ASCII text is the text.
\<close>

definition encode_utf8 :: "string \<Rightarrow> pyexc + string" where
  "encode_utf8 m = (if ascii m then Inr m else Inl UnicodeDecodeError)"

subsection \<open>The instance\<close>

text \<open>
  Modelled from the spec: \<^verbatim>\<open>plotly.utils.DisconnectThread\<close> is not among the sources.
  A thread that is alive or not, with the flag \<^verbatim>\<open>connected\<close> that
  \<^verbatim>\<open>disconnect()\<close> clears to signal the worker to stop.
\<close>

record thread_obj =
  isAlive :: bool
  thread_connected :: bool

text \<open>The writer half of the connection: what was written to it, and whether it is closed.\<close>

record transport =
  written :: "string list"
  closed :: bool

record stream_writer =
  token :: string
  ignore_status_codes :: "int option list"
  ignore_errors :: "string list"
  queue_length :: nat
  initial_write_timeout :: real
  queue :: "pystr deque"
  last_beat :: "real option"
  connect_errors :: int
  last_connect_error :: real
  disconnections :: int
  last_disconnection :: real
  thread :: "thread_obj option"
  reader :: "unit option"
  writer :: "transport option"
  error :: "pyexc option"
  response :: "string option"
  host :: string
  port :: nat
  headers :: "(string \<times> string) list"
  chunk :: "pystr option"
  slept :: "real list"

text \<open>
  \<open>slept\<close> is no attribute: it records the arguments of the calls of \<^verbatim>\<open>time.sleep\<close>,
  in order. \<open>chunk\<close> is the attribute \<^verbatim>\<open>_chunk\<close>, absent until the first chunk is
  taken from the queue.
\<close>

definition linear_back_off_rate :: real where "linear_back_off_rate = 0.250"
definition linear_wait_max :: real where "linear_wait_max = 16"
definition exponential_back_off_base :: int where "exponential_back_off_base = 5"
definition exponential_wait_max :: real where "exponential_wait_max = 320"
definition eol :: string where "eol = [CHR 0x0D, CHR 0x0A]"

definition default_ignore_status_codes :: "int option list" where
  "default_ignore_status_codes = [None, Some 200]"

definition default_ignore_errors :: "string list" where
  "default_ignore_errors = []"

definition default_queue_length :: nat where
  "default_queue_length = 500"

definition default_initial_write_timeout :: real where
  "default_initial_write_timeout = 4"

text \<open>
  \<^verbatim>\<open>__init__\<close>. The host comes from the configuration and the two time stamps from
  \<^verbatim>\<open>time.time()\<close>; they are arguments here.
\<close>

definition StreamWriter_init ::
  "string \<Rightarrow> int option list \<Rightarrow> string list \<Rightarrow> nat \<Rightarrow> real \<Rightarrow> string \<Rightarrow> real \<Rightarrow> real \<Rightarrow> stream_writer" where
  "StreamWriter_init tok codes errs qlen timeout h t1 t2 =
     \<lparr>token = tok, ignore_status_codes = codes, ignore_errors = errs, queue_length = qlen,
      initial_write_timeout = timeout, queue = deque_new qlen, last_beat = None,
      connect_errors = 0, last_connect_error = t1, disconnections = 0, last_disconnection = t2,
      thread = None, reader = None, writer = None, error = None, response = None,
      host = h, port = 80,
      headers = [(''Plotly-Streamtoken'', tok), (''Host'', h),
                 (''Transfer-Encoding'', ''chunked''), (''Content-Type'', ''text/plain'')],
      chunk = None, slept = []\<rparr>"

text \<open>The constructor called with the token alone.\<close>

definition StreamWriter_default :: "string \<Rightarrow> string \<Rightarrow> real \<Rightarrow> real \<Rightarrow> stream_writer" where
  "StreamWriter_default tok h t1 t2 =
     StreamWriter_init tok default_ignore_status_codes default_ignore_errors
       default_queue_length default_initial_write_timeout h t1 t2"

definition reset :: "stream_writer \<Rightarrow> stream_writer" where
  "reset s = s\<lparr>response := None, error := None, last_beat := None, reader := None, writer := None\<rparr>"

definition back_off_linearly :: "real \<Rightarrow> stream_writer \<Rightarrow> stream_writer outcome" where
  "back_off_linearly now s =
     (let s1 = (if now - last_connect_error s > linear_wait_max * 2
                then s\<lparr>connect_errors := 0\<rparr> else s);
          s2 = s1\<lparr>last_connect_error := now\<rparr>;
          s3 = s2\<lparr>connect_errors := connect_errors s2 + 1\<rparr>;
          wait_time = of_int (connect_errors s3) * linear_back_off_rate
      in if wait_time > linear_wait_max then (Some TooManyConnectFailures, s3)
         else (None, s3\<lparr>slept := slept s3 @ [wait_time]\<rparr>))"

text \<open>\<^verbatim>\<open>base ** n\<close> on integers: a negative exponent gives the reciprocal.\<close>

definition pow :: "int \<Rightarrow> int \<Rightarrow> real" where
  "pow b n = (if 0 \<le> n then of_int b ^ nat n else 1 / of_int b ^ nat (- n))"

definition back_off_exponentially :: "real \<Rightarrow> stream_writer \<Rightarrow> stream_writer outcome" where
  "back_off_exponentially now s =
     (let s1 = (if now - last_disconnection s > exponential_wait_max * 2
                then s\<lparr>disconnections := 0\<rparr> else s);
          s2 = s1\<lparr>last_disconnection := now\<rparr>;
          s3 = s2\<lparr>disconnections := disconnections s2 + 1\<rparr>;
          wait_time = pow exponential_back_off_base (disconnections s3)
      in if wait_time > exponential_wait_max then (Some TooManyConnectFailures, s3)
         else (None, s3\<lparr>slept := slept s3 @ [wait_time]\<rparr>))"

subsection \<open>Raising stored failures\<close>

text \<open>
  What a call of \<^verbatim>\<open>open\<close> reads from outside the instance: the clock, once in each
  back-off, and the parse of the raw response. \<^verbatim>\<open>HttpResponseParser\<close> of
  \<^verbatim>\<open>plotly.utils\<close> is not among the sources: \<open>parse r\<close> stands for
  \<^verbatim>\<open>response = self.response; message = response.read(); status = response.status\<close>
  on the raw response \<open>r\<close>, giving the message and the status, or the exception raised.
\<close>

record world =
  now_response :: real
  now_error :: real
  parse :: "string \<Rightarrow> pyexc + (string \<times> int)"

text \<open>\<^verbatim>\<open>status >= 500\<close>; Python 2 orders \<^verbatim>\<open>None\<close> below every integer.\<close>

definition status_ge_500 :: "int option \<Rightarrow> bool" where
  "status_ge_500 status = (case status of None \<Rightarrow> False | Some n \<Rightarrow> 500 \<le> n)"

definition raise_for_response :: "world \<Rightarrow> stream_writer \<Rightarrow> stream_writer outcome" where
  "raise_for_response w s =
     (case response s of
        None \<Rightarrow> (None, s)
      | Some r \<Rightarrow>
          (case (case parse w r of
                   Inr (m, st) \<Rightarrow> Inr (m, Some st)
                 | Inl e \<Rightarrow>
                     if isinstance_of e [''AttributeError'', ''BadStatusLine'']
                     then Inr ([], None) else Inl e) of
             Inl e \<Rightarrow> (Some e, s)
           | Inr (message, status) \<Rightarrow>
               if status \<notin> set (ignore_status_codes s)
               then (Some (ClosedConnection message status), s)
               else if status_ge_500 status then back_off_linearly (now_response w) s
               else back_off_exponentially (now_response w) s))"

definition raise_for_error :: "world \<Rightarrow> stream_writer \<Rightarrow> stream_writer outcome" where
  "raise_for_error w s =
     (case error s of
        None \<Rightarrow> (None, s)
      | Some e \<Rightarrow>
          if \<not> isinstance_of e (ignore_errors s) then (Some e, s)
          else if isinstance_of e [''socket.error''] then back_off_linearly (now_error w) s
          else (None, s))"

subsection \<open>The public interface\<close>

text \<open>The property \<^verbatim>\<open>connected\<close>: \<^verbatim>\<open>self._thread and self._thread.isAlive()\<close>.\<close>

definition sw_connected :: "stream_writer \<Rightarrow> bool" where
  "sw_connected s = (case thread s of None \<Rightarrow> False | Some t \<Rightarrow> isAlive t)"

text \<open>
  \<^verbatim>\<open>open\<close>. Starting the thread makes it alive; what the thread then does is
  \<open>read_write\<close> below.
\<close>

definition StreamWriter_open :: "world \<Rightarrow> stream_writer \<Rightarrow> stream_writer outcome" where
  "StreamWriter_open w s =
     (if sw_connected s then (None, s)
      else
        (case raise_for_response w s of
           (Some e, s1) \<Rightarrow> (Some e, s1)
         | (None, s1) \<Rightarrow>
             (case raise_for_error w s1 of
                (Some e, s2) \<Rightarrow> (Some e, s2)
              | (None, s2) \<Rightarrow>
                  (None, (reset s2)\<lparr>thread := Some \<lparr>isAlive = True, thread_connected = True\<rparr>\<rparr>))))"

text \<open>
  The argument of \<^verbatim>\<open>write\<close>: a string, or any other value, given by what
  \<^verbatim>\<open>json.dumps(chunk, cls=utils.PlotlyJSONEncoder)\<close> returns or raises for it.
\<close>

datatype payload = Text pystr | Object "pyexc + pystr"

definition StreamWriter_write :: "world \<Rightarrow> payload \<Rightarrow> stream_writer \<Rightarrow> stream_writer outcome" where
  "StreamWriter_write w c s =
     (case (if \<not> sw_connected s then StreamWriter_open w s else (None, s)) of
        (Some e, s1) \<Rightarrow> (Some e, s1)
      | (None, s1) \<Rightarrow>
          (case (case c of Text t \<Rightarrow> Inr t | Object r \<Rightarrow> r) of
             Inl e \<Rightarrow> (Some e, s1)
           | Inr t \<Rightarrow> (None, s1\<lparr>queue := appendleft (add_newline t) (queue s1)\<rparr>)))"

definition StreamWriter_close :: "stream_writer \<Rightarrow> stream_writer" where
  "StreamWriter_close s = (if \<not> sw_connected s then s else s\<lparr>thread := None\<rparr>)"

subsection \<open>The worker\<close>

text \<open>
  \<^verbatim>\<open>_check_pulse\<close>, with the two readings of the clock. \<^verbatim>\<open>x or y\<close> takes
  \<^verbatim>\<open>y\<close> when \<^verbatim>\<open>x\<close> is \<^verbatim>\<open>None\<close> or zero.
\<close>

definition check_pulse :: "real \<Rightarrow> real \<Rightarrow> world \<Rightarrow> stream_writer \<Rightarrow> stream_writer outcome" where
  "check_pulse t1 t2 w s =
     (let s1 = s\<lparr>last_beat := (case last_beat s of
                                  None \<Rightarrow> Some t1
                                | Some b \<Rightarrow> if b = 0 then Some t1 else Some b)\<rparr>;
          now = t2
      in if now - the (last_beat s1) > 30
         then (let s2 = s1\<lparr>last_beat := Some now\<rparr>
               in if items (queue s2) = [] then StreamWriter_write w (Text (Str [])) s2
                  else (None, s2))
         else (None, s1))"

text \<open>A write to the transport; on no writer the attribute lookup fails.\<close>

definition writer_write :: "string \<Rightarrow> stream_writer \<Rightarrow> stream_writer outcome" where
  "writer_write d s =
     (case writer s of
        None \<Rightarrow> (Some AttributeError, s)
      | Some t \<Rightarrow> (None, s\<lparr>writer := Some (t\<lparr>written := written t @ [d]\<rparr>)\<rparr>))"

fun write_headers :: "(string \<times> string) list \<Rightarrow> stream_writer \<Rightarrow> stream_writer outcome" where
  "write_headers [] s = (None, s)"
| "write_headers ((header, header_value) # hs) s =
     (case writer_write (header @ '': '' @ header_value) s of
        (Some e, s1) \<Rightarrow> (Some e, s1)
      | (None, s1) \<Rightarrow>
          (case writer_write eol s1 of
             (Some e, s2) \<Rightarrow> (Some e, s2)
           | (None, s2) \<Rightarrow> write_headers hs s2))"

definition initial_write :: "stream_writer \<Rightarrow> stream_writer outcome" where
  "initial_write s =
     (case writer_write ''POST / HTTP/1.1'' s of
        (Some e, s1) \<Rightarrow> (Some e, s1)
      | (None, s1) \<Rightarrow>
          (case writer_write eol s1 of
             (Some e, s2) \<Rightarrow> (Some e, s2)
           | (None, s2) \<Rightarrow>
               (case write_headers (headers s2) s2 of
                  (Some e, s3) \<Rightarrow> (Some e, s3)
                | (None, s3) \<Rightarrow> writer_write eol s3)))"

text \<open>
  \<^verbatim>\<open>_write\<close>. Between computing the length and building the message the method calls
  the transport's \<^verbatim>\<open>write\<close> with no argument; the transport is a library object, and
  \<open>bare\<close> is what that call does: \<open>None\<close> when it returns having written nothing,
  \<open>Some e\<close> when it raises \<open>e\<close>.
\<close>

definition StreamWriter__write :: "pyexc option \<Rightarrow> stream_writer \<Rightarrow> stream_writer outcome" where
  "StreamWriter__write bare s =
     (if items (queue s) \<noteq> [] then
        (case pop (queue s) of
           Inl e \<Rightarrow> (Some e, s)
         | Inr (c, q) \<Rightarrow>
             (let s1 = s\<lparr>queue := q, chunk := Some c\<rparr>;
                  hex_len = format_x (len c)
              in case writer s1 of
                   None \<Rightarrow> (Some AttributeError, s1)
                 | Some t \<Rightarrow>
                     (case bare of
                        Some e \<Rightarrow> (Some e, s1)
                      | None \<Rightarrow>
                          (case format_message hex_len c of
                             Inl e \<Rightarrow> (Some e, s1)
                           | Inr message \<Rightarrow>
                               (case encode_utf8 message of
                                  Inl e \<Rightarrow> (Some e, s1)
                                | Inr d \<Rightarrow> writer_write d s1)))))
      else (None, s))"

text \<open>
  One turn of the loop of \<^verbatim>\<open>_read_write\<close> reads from outside the instance: the
  chunks the caller's thread has put on the queue since the last turn, the flag
  \<^verbatim>\<open>current_thread.connected\<close>, the clock and the parse for the pulse, and what
  \<^verbatim>\<open>_read\<close> gives: \<open>Inr None\<close> on a timeout, \<open>Inr (Some d)\<close> the data read.
\<close>

record turn =
  incoming :: "pystr list"
  still_connected :: bool
  pulse_t1 :: real
  pulse_t2 :: real
  pulse_world :: world
  read_result :: "pyexc + string option"

text \<open>
  The loop. It may run forever; here it runs through a finite list of turns and gives
  \<open>None\<close> when the list ends before the loop does.
\<close>

fun read_write_loop ::
  "pyexc option \<Rightarrow> turn list \<Rightarrow> stream_writer \<Rightarrow> stream_writer outcome option" where
  "read_write_loop bare [] s = (if response s \<noteq> None then Some (None, s) else None)"
| "read_write_loop bare (i # rest) s =
     (let s0 = s\<lparr>queue := fold appendleft (incoming i) (queue s)\<rparr>
      in if response s0 = None \<and> still_connected i then
           (case check_pulse (pulse_t1 i) (pulse_t2 i) (pulse_world i) s0 of
              (Some e, s1) \<Rightarrow> Some (Some e, s1)
            | (None, s1) \<Rightarrow>
                (case read_result i of
                   Inl e \<Rightarrow> Some (Some e, s1)
                 | Inr d \<Rightarrow>
                     (case StreamWriter__write bare (s1\<lparr>response := d\<rparr>) of
                        (Some e, s2) \<Rightarrow> Some (Some e, s2)
                      | (None, s2) \<Rightarrow> read_write_loop bare rest s2)))
         else Some (None, s0))"

text \<open>
  \<^verbatim>\<open>_read_write\<close>: \<open>conn\<close> is what opening the connection gives and \<open>first\<close>
  what the first read gives. \<^verbatim>\<open>except Exception\<close> stores an exception of that
  class and lets any other pass; \<^verbatim>\<open>finally\<close> closes the writer if there is one.
\<close>

definition read_write_body ::
  "pyexc + unit \<Rightarrow> pyexc + string option \<Rightarrow> pyexc option \<Rightarrow> turn list \<Rightarrow> stream_writer \<Rightarrow>
   stream_writer outcome option" where
  "read_write_body conn first bare turns s =
     (case conn of
        Inl e \<Rightarrow> Some (Some e, s)
      | Inr _ \<Rightarrow>
          (case initial_write (s\<lparr>reader := Some (), writer := Some \<lparr>written = [], closed = False\<rparr>\<rparr>) of
             (Some e, s1) \<Rightarrow> Some (Some e, s1)
           | (None, s1) \<Rightarrow>
               (case first of
                  Inl e \<Rightarrow> Some (Some e, s1)
                | Inr d \<Rightarrow> read_write_loop bare turns (s1\<lparr>response := d\<rparr>))))"

definition read_write ::
  "pyexc + unit \<Rightarrow> pyexc + string option \<Rightarrow> pyexc option \<Rightarrow> turn list \<Rightarrow> stream_writer \<Rightarrow>
   stream_writer outcome option" where
  "read_write conn first bare turns s =
     (case read_write_body conn first bare turns s of
        None \<Rightarrow> None
      | Some (r, s1) \<Rightarrow>
          (let (r2, s2) =
                 (case r of
                    None \<Rightarrow> (None, s1)
                  | Some e \<Rightarrow>
                      if isinstance_of e [''Exception''] then (None, s1\<lparr>error := Some e\<rparr>)
                      else (Some e, s1))
           in Some (r2, s2\<lparr>writer := map_option (\<lambda>t. t\<lparr>closed := True\<rparr>) (writer s2)\<rparr>)))"

text \<open>\<^verbatim>\<open>_thread_func\<close>: the thread runs the worker and is no longer alive after it.\<close>

definition thread_func ::
  "pyexc + unit \<Rightarrow> pyexc + string option \<Rightarrow> pyexc option \<Rightarrow> turn list \<Rightarrow> stream_writer \<Rightarrow>
   stream_writer outcome option" where
  "thread_func conn first bare turns s =
     (case read_write conn first bare turns s of
        None \<Rightarrow> None
      | Some (r, s1) \<Rightarrow>
          Some (r, s1\<lparr>thread := map_option (\<lambda>t. t\<lparr>isAlive := False\<rparr>) (thread s1)\<rparr>))"


subsection \<open>Runs of calls\<close>

text \<open>A caller writing the strings of a list, one call of \<^verbatim>\<open>write\<close> each, until one raises.\<close>

fun write_all :: "world \<Rightarrow> pystr list \<Rightarrow> stream_writer \<Rightarrow> stream_writer outcome" where
  "write_all w [] s = (None, s)"
| "write_all w (c # cs) s =
     (case StreamWriter_write w (Text c) s of
        (Some e, s1) \<Rightarrow> (Some e, s1)
      | (None, s1) \<Rightarrow> write_all w cs s1)"

text \<open>
  Successive readings of the clock with no reset between them: each is at most \<open>d\<close>
  after the one before, so the test \<^verbatim>\<open>now - last > d\<close> of a back-off fails.
\<close>

fun no_reset :: "real \<Rightarrow> real \<Rightarrow> real list \<Rightarrow> bool" where
  "no_reset d prev [] = True"
| "no_reset d prev (t # ts) = (t - prev \<le> d \<and> no_reset d t ts)"

text \<open>The instance after one back-off at each of the given readings of the clock.\<close>

definition connect_failures :: "real list \<Rightarrow> stream_writer \<Rightarrow> stream_writer" where
  "connect_failures ts s = fold (\<lambda>t s. snd (back_off_linearly t s)) ts s"

definition disconnect_failures :: "real list \<Rightarrow> stream_writer \<Rightarrow> stream_writer" where
  "disconnect_failures ts s = fold (\<lambda>t s. snd (back_off_exponentially t s)) ts s"

text \<open>
  The default of the parameter \<^verbatim>\<open>reconnect_on\<close> of \<^verbatim>\<open>Stream.write\<close> and
  \<^verbatim>\<open>Stream.heartbeat\<close>, the older interface: \<^verbatim>\<open>(200, '', 408)\<close>.
\<close>

definition Stream_write_reconnect_on :: "(int + string) list" where
  "Stream_write_reconnect_on = [Inl 200, Inr [], Inl 408]"

subsection \<open>Decoding a chunk\<close>

text \<open>
  The receiving side, after the chunked transfer coding of HTTP/1.1: the size of the
  chunk in hexadecimal digits, a line end, that many bytes, a line end. \<open>chunk_decode\<close>
  gives the bytes of a message that is exactly one chunk.
\<close>

definition hex_val :: "char \<Rightarrow> nat option" where
  "hex_val c =
     (let n = (of_char c :: nat)
      in if 48 \<le> n \<and> n \<le> 57 then Some (n - 48)
         else if 97 \<le> n \<and> n \<le> 102 then Some (n - 87)
         else if 65 \<le> n \<and> n \<le> 70 then Some (n - 55)
         else None)"

fun read_hex :: "nat \<Rightarrow> string \<Rightarrow> nat \<times> string" where
  "read_hex acc [] = (acc, [])"
| "read_hex acc (c # cs) =
     (case hex_val c of
        Some v \<Rightarrow> read_hex (16 * acc + v) cs
      | None \<Rightarrow> (acc, c # cs))"

definition chunk_decode :: "string \<Rightarrow> string option" where
  "chunk_decode bs =
     (case bs of
        [] \<Rightarrow> None
      | c # _ \<Rightarrow>
          if hex_val c = None then None
          else (case read_hex 0 bs of
                  (n, rest) \<Rightarrow>
                    if take 2 rest = eol \<and> drop (2 + n) rest = eol
                    then Some (take n (drop 2 rest)) else None))"

subsection \<open>Histories of an instance\<close>

text \<open>
  What happens to one instance, in the order it happens: the calls of its methods, by
  the caller or by the worker, each with what it reads from outside, and the assignments
  the worker makes in \<^verbatim>\<open>_read_write\<close> (the connection, a response, an error) and the
  end of the thread. An exception raised by a call goes to whoever made it; the instance
  stays as the call left it.
\<close>

datatype call =
    Pulse real real world
  | Write world payload
  | Drain "pyexc option"
  | Open world
  | Close
  | Connect
  | Arrive "string option"
  | Fail pyexc
  | ThreadEnds

fun exec :: "call \<Rightarrow> stream_writer \<Rightarrow> stream_writer" where
  "exec (Pulse t1 t2 w) s = snd (check_pulse t1 t2 w s)"
| "exec (Write w c) s = snd (StreamWriter_write w c s)"
| "exec (Drain bare) s = snd (StreamWriter__write bare s)"
| "exec (Open w) s = snd (StreamWriter_open w s)"
| "exec Close s = StreamWriter_close s"
| "exec Connect s = s\<lparr>reader := Some (), writer := Some \<lparr>written = [], closed = False\<rparr>\<rparr>"
| "exec (Arrive d) s = s\<lparr>response := d\<rparr>"
| "exec (Fail e) s = s\<lparr>error := Some e\<rparr>"
| "exec ThreadEnds s = s\<lparr>thread := map_option (\<lambda>t. t\<lparr>isAlive := False\<rparr>) (thread s)\<rparr>"

text \<open>
  The heartbeats of a history: the second clock reading of every call of
  \<^verbatim>\<open>_check_pulse\<close> that put its keep-alive on the queue.
\<close>

fun heartbeats :: "call list \<Rightarrow> stream_writer \<Rightarrow> real list" where
  "heartbeats [] s = []"
| "heartbeats (c # cs) s =
     (case c of
        Pulse t1 t2 w \<Rightarrow> (if queue (exec c s) \<noteq> queue s then [t2] else [])
      | _ \<Rightarrow> [])
     @ heartbeats cs (exec c s)"

text \<open>The clock of a history does not run backwards, from the time \<open>t\<close> on.\<close>

fun chrono :: "real \<Rightarrow> call list \<Rightarrow> bool" where
  "chrono t [] = True"
| "chrono t (Pulse t1 t2 w # cs) = (t \<le> t1 \<and> t1 \<le> t2 \<and> chrono t2 cs)"
| "chrono t (c # cs) = chrono t cs"

text \<open>Successive times more than 30 seconds apart.\<close>

fun spaced :: "real list \<Rightarrow> bool" where
  "spaced [] = True"
| "spaced [a] = True"
| "spaced (a # b # r) = (b - a > 30 \<and> spaced (b # r))"

text \<open>
  The beat that \<^verbatim>\<open>_check_pulse\<close> compares the clock with:
  \<^verbatim>\<open>self._last_beat or time.time()\<close>.
\<close>

definition beat_of :: "real \<Rightarrow> stream_writer \<Rightarrow> real" where
  "beat_of t1 s = (case last_beat s of None \<Rightarrow> t1 | Some b \<Rightarrow> if b = 0 then t1 else b)"

text \<open>The recorded beat, when there is one that counts, is not before the time \<open>T\<close>.\<close>

definition beat_inv :: "real \<Rightarrow> stream_writer \<Rightarrow> bool" where
  "beat_inv T s = (case last_beat s of None \<Rightarrow> True | Some b \<Rightarrow> b = 0 \<or> T \<le> b)"


section \<open>Properties\<close>

subsection \<open>The bounded queue\<close>

lemma appendleft_items:
  "length (items d) \<le> maxlen d \<Longrightarrow> items (appendleft x d) = take (maxlen d) (x # items d)"
proof (cases "maxlen d < Suc (length (items d))")
  case True
  assume "length (items d) \<le> maxlen d"
  with True have "length (items d) = maxlen d" by simp
  then show ?thesis by (simp add: appendleft_def Let_def butlast_conv_take)
next
  case False
  then show ?thesis by (simp add: appendleft_def Let_def)
qed

lemma appendleft_maxlen: "maxlen (appendleft x d) = maxlen d"
  by (simp add: appendleft_def Let_def)

lemma appendleft_bounded:
  "length (items d) \<le> maxlen d \<Longrightarrow> length (items (appendleft x d)) \<le> maxlen d"
  by (simp add: appendleft_items)

lemma fold_appendleft_maxlen: "maxlen (fold appendleft xs d) = maxlen d"
  by (induction xs arbitrary: d) (simp_all add: appendleft_maxlen)

lemma fold_appendleft_items:
  "length (items d) \<le> maxlen d \<Longrightarrow>
   items (fold appendleft xs d) = take (maxlen d) (rev xs @ items d)"
proof (induction xs arbitrary: d)
  case Nil
  then show ?case by simp
next
  case (Cons x xs)
  have b: "length (items (appendleft x d)) \<le> maxlen (appendleft x d)"
    using Cons.prems by (simp add: appendleft_bounded appendleft_maxlen)
  have "items (fold appendleft xs (appendleft x d))
        = take (maxlen d) (rev xs @ take (maxlen d) (x # items d))"
    using Cons.IH [OF b] Cons.prems by (simp add: appendleft_maxlen appendleft_items)
  also have "\<dots> = take (maxlen d) (rev xs @ x # items d)"
    by (simp add: take_Cons' min_def) 
  finally show ?case by simp
qed


lemma write_connected:
  "sw_connected s \<Longrightarrow>
   StreamWriter_write w (Text c) s = (None, s\<lparr>queue := appendleft (add_newline c) (queue s)\<rparr>)"
  by (simp add: StreamWriter_write_def)

lemma open_no_failure:
  "\<not> sw_connected s \<Longrightarrow> response s = None \<Longrightarrow> error s = None \<Longrightarrow>
   StreamWriter_open w s = (None, (reset s)\<lparr>thread := Some \<lparr>isAlive = True, thread_connected = True\<rparr>\<rparr>)"
  by (simp add: StreamWriter_open_def raise_for_response_def raise_for_error_def)

lemma connected_queue_update [simp]: "sw_connected (s\<lparr>queue := q\<rparr>) = sw_connected s"
  by (simp add: sw_connected_def)

lemma write_all_connected:
  "sw_connected s \<Longrightarrow>
   write_all w cs s = (None, s\<lparr>queue := fold appendleft (map add_newline cs) (queue s)\<rparr>)"
proof (induction cs arbitrary: s)
  case Nil
  then show ?case by simp
next
  case (Cons c cs)
  then show ?case by (simp add: write_connected)
qed

lemma write_all_fresh:
  "\<not> sw_connected s \<Longrightarrow> response s = None \<Longrightarrow> error s = None \<Longrightarrow> cs \<noteq> [] \<Longrightarrow>
   write_all w cs s =
     (None, (reset s)\<lparr>thread := Some \<lparr>isAlive = True, thread_connected = True\<rparr>,
                      queue := fold appendleft (map add_newline cs) (queue s)\<rparr>)"
proof (cases cs)
  case Nil
  assume "cs \<noteq> []"
  with Nil show ?thesis by simp
next
  case (Cons c cs')
  assume a: "\<not> sw_connected s" "response s = None" "error s = None"
  let ?s1 = "(reset s)\<lparr>thread := Some \<lparr>isAlive = True, thread_connected = True\<rparr>\<rparr>"
  have c1: "sw_connected ?s1" by (simp add: sw_connected_def)
  have w1: "StreamWriter_write w (Text c) s
            = (None, ?s1\<lparr>queue := appendleft (add_newline c) (queue ?s1)\<rparr>)"
    using a by (simp add: StreamWriter_write_def open_no_failure)
  show ?thesis
    using Cons c1 by (simp add: w1 write_all_connected reset_def)
qed

text \<open>
  Claim C2. A fresh instance of capacity \<open>C\<close> (500 by default) on which the strings
  \<open>cs\<close> are written, with nothing taken from the queue meanwhile: no call raises, the
  queue holds \<open>min C (length cs)\<close> items, so never more than \<open>C\<close>, and they are
  the last \<open>C\<close> strings written, each with its line break, the newest at the left end.
  The older ones are gone without an exception.
\<close>

theorem queue_bounded_keeps_newest:
  "fst (write_all w cs (StreamWriter_init tok codes errs C tmo h t1 t2)) = None
   \<and> items (queue (snd (write_all w cs (StreamWriter_init tok codes errs C tmo h t1 t2))))
       = take C (rev (map add_newline cs))
   \<and> length (items (queue (snd (write_all w cs (StreamWriter_init tok codes errs C tmo h t1 t2)))))
       = min C (length cs)
   \<and> maxlen (queue (StreamWriter_default tok h t1 t2)) = 500"
proof (cases "cs = []")
  case True
  then show ?thesis
    by (simp add: StreamWriter_init_def StreamWriter_default_def deque_new_def default_queue_length_def)
next
  case False
  let ?s0 = "StreamWriter_init tok codes errs C tmo h t1 t2"
  have a: "\<not> sw_connected ?s0" "response ?s0 = None" "error ?s0 = None"
    by (simp_all add: StreamWriter_init_def sw_connected_def)
  have q: "items (queue ?s0) = []" "maxlen (queue ?s0) = C"
    by (simp_all add: StreamWriter_init_def deque_new_def)
  have "items (fold appendleft (map add_newline cs) (queue ?s0)) = take C (rev (map add_newline cs))"
    using fold_appendleft_items [of "queue ?s0" "map add_newline cs"] q by simp
  then show ?thesis
    using write_all_fresh [OF a False, of w]
    by (simp add: StreamWriter_default_def StreamWriter_init_def deque_new_def default_queue_length_def rev_map)
qed


subsection \<open>The two back-offs\<close>

lemma back_off_linearly_step:
  "now - last_connect_error s \<le> 32 \<Longrightarrow>
   connect_errors (snd (back_off_linearly now s)) = connect_errors s + 1
   \<and> last_connect_error (snd (back_off_linearly now s)) = now"
  by (simp add: back_off_linearly_def linear_wait_max_def Let_def)

lemma connect_failures_count:
  "no_reset 32 (last_connect_error s) ts \<Longrightarrow>
   connect_errors (connect_failures ts s) = connect_errors s + int (length ts)
   \<and> last_connect_error (connect_failures ts s) = (if ts = [] then last_connect_error s else last ts)"
proof (induction ts arbitrary: s)
  case Nil
  then show ?case by (simp add: connect_failures_def)
next
  case (Cons t ts)
  let ?s1 = "snd (back_off_linearly t s)"
  have st: "connect_errors ?s1 = connect_errors s + 1" "last_connect_error ?s1 = t"
    using Cons.prems back_off_linearly_step [of t s] by simp_all
  have nr: "no_reset 32 (last_connect_error ?s1) ts"
    using Cons.prems st by simp
  have unf: "connect_failures (t # ts) s = connect_failures ts ?s1"
    by (simp add: connect_failures_def)
  show ?case
    using Cons.IH [OF nr] st by (simp add: unf)
qed

lemma no_reset_append:
  "no_reset d p (ts @ [t]) = (no_reset d p ts \<and> t - (if ts = [] then p else last ts) \<le> d)"
  by (induction ts arbitrary: p) auto

lemma back_off_linearly_at:
  "now - last_connect_error s \<le> 32 \<Longrightarrow> connect_errors s + 1 = int N \<Longrightarrow>
   fst (back_off_linearly now s) = (if real N * 0.25 > 16 then Some TooManyConnectFailures else None)
   \<and> slept (snd (back_off_linearly now s)) = slept s @ (if real N * 0.25 > 16 then [] else [real N * 0.25])"
  by (simp add: back_off_linearly_def linear_wait_max_def linear_back_off_rate_def Let_def)

text \<open>
  Claim C3. The \<open>N\<close>-th back-off after a connect failure in a row, with no reset of
  the counter between them (the instance starts with the counter at zero): the wait is
  \<open>N * 0.25\<close> seconds; the call raises \<^verbatim>\<open>TooManyConnectFailures\<close> without sleeping
  exactly when \<open>N * 0.25 > 16\<close>, that is from \<open>N = 65\<close> on, and sleeps that long
  otherwise.
\<close>

theorem linear_back_off_nth:
  assumes "connect_errors s = 0" and "no_reset 32 (last_connect_error s) (ts @ [now])"
    and "N = length ts + 1"
  shows "fst (back_off_linearly now (connect_failures ts s))
           = (if real N * 0.25 > 16 then Some TooManyConnectFailures else None)
       \<and> slept (snd (back_off_linearly now (connect_failures ts s)))
           = slept (connect_failures ts s) @ (if real N * 0.25 > 16 then [] else [real N * 0.25])
       \<and> (real N * 0.25 > 16) = (65 \<le> N)"
proof -
  have nr: "no_reset 32 (last_connect_error s) ts"
    and gap: "now - (if ts = [] then last_connect_error s else last ts) \<le> 32"
    using assms(2) by (simp_all add: no_reset_append)
  have c: "connect_errors (connect_failures ts s) = int (length ts)"
    and l: "last_connect_error (connect_failures ts s) = (if ts = [] then last_connect_error s else last ts)"
    using connect_failures_count [OF nr] assms(1) by simp_all
  have g: "now - last_connect_error (connect_failures ts s) \<le> 32"
    using gap l by simp
  have n: "connect_errors (connect_failures ts s) + 1 = int N"
    using c assms(3) by simp
  have "(real N * 0.25 > 16) = (65 \<le> N)" by auto
  then show ?thesis
    using back_off_linearly_at [OF g n] by simp
qed


lemma back_off_exponentially_step:
  "now - last_disconnection s \<le> 640 \<Longrightarrow>
   disconnections (snd (back_off_exponentially now s)) = disconnections s + 1
   \<and> last_disconnection (snd (back_off_exponentially now s)) = now"
  by (simp add: back_off_exponentially_def exponential_wait_max_def Let_def)

lemma disconnect_failures_count:
  "no_reset 640 (last_disconnection s) ts \<Longrightarrow>
   disconnections (disconnect_failures ts s) = disconnections s + int (length ts)
   \<and> last_disconnection (disconnect_failures ts s) = (if ts = [] then last_disconnection s else last ts)"
proof (induction ts arbitrary: s)
  case Nil
  then show ?case by (simp add: disconnect_failures_def)
next
  case (Cons t ts)
  let ?s1 = "snd (back_off_exponentially t s)"
  have st: "disconnections ?s1 = disconnections s + 1" "last_disconnection ?s1 = t"
    using Cons.prems back_off_exponentially_step [of t s] by simp_all
  have nr: "no_reset 640 (last_disconnection ?s1) ts"
    using Cons.prems st by simp
  have unf: "disconnect_failures (t # ts) s = disconnect_failures ts ?s1"
    by (simp add: disconnect_failures_def)
  show ?case
    using Cons.IH [OF nr] st by (simp add: unf)
qed

lemma back_off_exponentially_at:
  "now - last_disconnection s \<le> 640 \<Longrightarrow> disconnections s + 1 = int N \<Longrightarrow>
   fst (back_off_exponentially now s) = (if (5::real) ^ N > 320 then Some TooManyConnectFailures else None)
   \<and> slept (snd (back_off_exponentially now s)) = slept s @ (if (5::real) ^ N > 320 then [] else [5 ^ N])"
  by (simp add: back_off_exponentially_def exponential_wait_max_def exponential_back_off_base_def
      pow_def Let_def)

lemma five_power_ceiling: "((5::real) ^ N > 320) = (4 \<le> N)"
proof (cases "4 \<le> N")
  case True
  have "(5::real) ^ 4 \<le> 5 ^ N" using True by (intro power_increasing) simp_all
  then show ?thesis using True by simp
next
  case False
  then have "N = 0 \<or> N = 1 \<or> N = 2 \<or> N = 3" by arith
  then show ?thesis by auto
qed

text \<open>
  Claim C4. The \<open>N\<close>-th back-off after a disconnection in a row, with no reset of the
  counter between them: the wait is \<open>5 ^ N\<close> seconds; the call raises
  \<^verbatim>\<open>TooManyConnectFailures\<close> without sleeping exactly when \<open>5 ^ N > 320\<close>, that is
  from \<open>N = 4\<close> on, and sleeps that long otherwise.
\<close>

theorem exponential_back_off_nth:
  assumes "disconnections s = 0" and "no_reset 640 (last_disconnection s) (ts @ [now])"
    and "N = length ts + 1"
  shows "fst (back_off_exponentially now (disconnect_failures ts s))
           = (if (5::real) ^ N > 320 then Some TooManyConnectFailures else None)
       \<and> slept (snd (back_off_exponentially now (disconnect_failures ts s)))
           = slept (disconnect_failures ts s) @ (if (5::real) ^ N > 320 then [] else [5 ^ N])
       \<and> ((5::real) ^ N > 320) = (4 \<le> N)"
proof -
  have nr: "no_reset 640 (last_disconnection s) ts"
    and gap: "now - (if ts = [] then last_disconnection s else last ts) \<le> 640"
    using assms(2) by (simp_all add: no_reset_append)
  have c: "disconnections (disconnect_failures ts s) = int (length ts)"
    and l: "last_disconnection (disconnect_failures ts s) = (if ts = [] then last_disconnection s else last ts)"
    using disconnect_failures_count [OF nr] assms(1) by simp_all
  have g: "now - last_disconnection (disconnect_failures ts s) \<le> 640"
    using gap l by simp
  have n: "disconnections (disconnect_failures ts s) + 1 = int N"
    using c assms(3) by simp
  show ?thesis
    using back_off_exponentially_at [OF g n] five_power_ceiling [of N] by simp
qed

lemma no_reset_replicate: "0 \<le> d \<Longrightarrow> no_reset d t (replicate n t)"
  by (induction n) simp_all

lemma no_reset_replicate_snoc: "0 \<le> d \<Longrightarrow> no_reset d t (replicate n t @ [t])"
  using no_reset_replicate [of d t "Suc n"] by (simp add: replicate_append_same)

theorem linear_back_off_nth_witness:
  "fst (back_off_linearly 0 (connect_failures (replicate 64 0) (StreamWriter_default ''tok'' ''host'' 0 0)))
     = Some TooManyConnectFailures
   \<and> fst (back_off_linearly 0 (connect_failures (replicate 63 0) (StreamWriter_default ''tok'' ''host'' 0 0)))
     = None
   \<and> slept (snd (back_off_linearly 3 (connect_failures [1, 2] (StreamWriter_default ''tok'' ''host'' 0 0))))
     = [0.25, 0.5, 0.75]"
proof -
  let ?s = "StreamWriter_default ''tok'' ''host'' 0 0"
  have c: "connect_errors ?s = 0" and l: "last_connect_error ?s = 0" and sl: "slept ?s = []"
    by (simp_all add: StreamWriter_default_def StreamWriter_init_def)
  have r64: "no_reset 32 (last_connect_error ?s) (replicate 64 0 @ [0])"
    using no_reset_replicate_snoc [of 32 0 64] by (simp add: l)
  have r63: "no_reset 32 (last_connect_error ?s) (replicate 63 0 @ [0])"
    using no_reset_replicate_snoc [of 32 0 63] by (simp add: l)
  have r2: "no_reset 32 (last_connect_error ?s) ([1, 2] @ [3])"
    by (simp add: l)
  have s2: "slept (connect_failures [1, 2] ?s) = [0.25, 0.5]"
    by (simp add: connect_failures_def back_off_linearly_def Let_def c l sl
        linear_wait_max_def linear_back_off_rate_def)
  show ?thesis
    using linear_back_off_nth [OF c r64, of 65] linear_back_off_nth [OF c r63, of 64]
      linear_back_off_nth [OF c r2, of 3] s2
    by simp
qed


theorem exponential_back_off_nth_witness:
  "fst (back_off_exponentially 0 (disconnect_failures (replicate 3 0) (StreamWriter_default ''tok'' ''host'' 0 0)))
     = Some TooManyConnectFailures
   \<and> fst (back_off_exponentially 0 (disconnect_failures (replicate 2 0) (StreamWriter_default ''tok'' ''host'' 0 0)))
     = None
   \<and> slept (snd (back_off_exponentially 3 (disconnect_failures [1, 2] (StreamWriter_default ''tok'' ''host'' 0 0))))
     = [5, 25, 125]"
proof -
  let ?s = "StreamWriter_default ''tok'' ''host'' 0 0"
  have c: "disconnections ?s = 0" and l: "last_disconnection ?s = 0" and sl: "slept ?s = []"
    by (simp_all add: StreamWriter_default_def StreamWriter_init_def)
  have r3: "no_reset 640 (last_disconnection ?s) (replicate 3 0 @ [0])"
    using no_reset_replicate_snoc [of 640 0 3] by (simp add: l)
  have r2: "no_reset 640 (last_disconnection ?s) (replicate 2 0 @ [0])"
    using no_reset_replicate_snoc [of 640 0 2] by (simp add: l)
  have r1: "no_reset 640 (last_disconnection ?s) ([1, 2] @ [3])"
    by (simp add: l)
  have s2: "slept (disconnect_failures [1, 2] ?s) = [5, 25]"
    by (simp add: disconnect_failures_def back_off_exponentially_def Let_def c l sl
        exponential_wait_max_def exponential_back_off_base_def pow_def)
  show ?thesis
    using exponential_back_off_nth [OF c r3, of 4] exponential_back_off_nth [OF c r2, of 3]
      exponential_back_off_nth [OF c r1, of 3] s2
    by simp
qed


subsection \<open>What a reset keeps\<close>

lemma back_off_linearly_fields:
  "connect_errors (snd (back_off_linearly now s))
     = (if now - last_connect_error s > 32 then 1 else connect_errors s + 1)"
  "last_connect_error (snd (back_off_linearly now s)) = now"
  "disconnections (snd (back_off_linearly now s)) = disconnections s"
  "last_disconnection (snd (back_off_linearly now s)) = last_disconnection s"
  by (simp_all add: back_off_linearly_def linear_wait_max_def Let_def)

lemma back_off_exponentially_fields:
  "disconnections (snd (back_off_exponentially now s))
     = (if now - last_disconnection s > 640 then 1 else disconnections s + 1)"
  "last_disconnection (snd (back_off_exponentially now s)) = now"
  "connect_errors (snd (back_off_exponentially now s)) = connect_errors s"
  "last_connect_error (snd (back_off_exponentially now s)) = last_connect_error s"
  by (simp_all add: back_off_exponentially_def exponential_wait_max_def Let_def)

lemma raise_for_response_cases:
  "snd (raise_for_response w s) = s
   \<or> snd (raise_for_response w s) = snd (back_off_linearly (now_response w) s)
   \<or> snd (raise_for_response w s) = snd (back_off_exponentially (now_response w) s)"
  by (simp add: raise_for_response_def split: option.splits sum.splits prod.splits)

lemma raise_for_error_cases:
  "snd (raise_for_error w s) = s
   \<or> snd (raise_for_error w s) = snd (back_off_linearly (now_error w) s)"
  by (simp add: raise_for_error_def split: option.splits)

lemma open_success:
  "\<not> sw_connected s \<Longrightarrow> StreamWriter_open w s = (None, s') \<Longrightarrow>
   s' = (reset (snd (raise_for_error w (snd (raise_for_response w s)))))
          \<lparr>thread := Some \<lparr>isAlive = True, thread_connected = True\<rparr>\<rparr>"
  by (auto simp: StreamWriter_open_def split: prod.splits option.splits)

text \<open>
  Claim C10. \<^verbatim>\<open>_reset\<close> clears the response, the stored error, the time of the last
  beat, the reader and the writer, and leaves every other attribute as it was, the two
  failure counters and the times of the last failures among them. A call of
  \<^verbatim>\<open>open\<close> on an instance that is not connected, when it returns, has reset the
  instance as the two checks of stored failures left it: with no stored failure the
  counters and times are those of before, and a counter is smaller after the call only
  when a back-off found its last failure older than twice the ceiling (32 and 640
  seconds).
\<close>

theorem reset_keeps_failure_counters:
  assumes "\<not> sw_connected s" and "StreamWriter_open w s = (None, s')"
  shows "response (reset s) = None \<and> error (reset s) = None \<and> last_beat (reset s) = None
       \<and> reader (reset s) = None \<and> writer (reset s) = None
       \<and> connect_errors (reset s) = connect_errors s
       \<and> last_connect_error (reset s) = last_connect_error s
       \<and> disconnections (reset s) = disconnections s
       \<and> last_disconnection (reset s) = last_disconnection s
       \<and> queue (reset s) = queue s \<and> thread (reset s) = thread s \<and> chunk (reset s) = chunk s
       \<and> token (reset s) = token s \<and> ignore_status_codes (reset s) = ignore_status_codes s
       \<and> ignore_errors (reset s) = ignore_errors s \<and> queue_length (reset s) = queue_length s
       \<and> initial_write_timeout (reset s) = initial_write_timeout s
       \<and> host (reset s) = host s \<and> port (reset s) = port s \<and> headers (reset s) = headers s
       \<and> slept (reset s) = slept s
       \<and> s' = (reset (snd (raise_for_error w (snd (raise_for_response w s)))))
                 \<lparr>thread := Some \<lparr>isAlive = True, thread_connected = True\<rparr>\<rparr>
       \<and> (if response s = None \<and> error s = None
           then connect_errors s' = connect_errors s \<and> last_connect_error s' = last_connect_error s
              \<and> disconnections s' = disconnections s \<and> last_disconnection s' = last_disconnection s
           else True)
       \<and> (connect_errors s \<le> connect_errors s'
            \<or> now_response w - last_connect_error s > 32
            \<or> now_error w - last_connect_error s > 32
            \<or> now_error w - now_response w > 32)
       \<and> (disconnections s \<le> disconnections s'
            \<or> now_response w - last_disconnection s > 640)"
proof -
  let ?s1 = "snd (raise_for_response w s)"
  let ?s2 = "snd (raise_for_error w ?s1)"
  have s': "s' = (reset ?s2)\<lparr>thread := Some \<lparr>isAlive = True, thread_connected = True\<rparr>\<rparr>"
    using open_success [OF assms] .
  have c: "connect_errors s' = connect_errors ?s2" "last_connect_error s' = last_connect_error ?s2"
    "disconnections s' = disconnections ?s2" "last_disconnection s' = last_disconnection ?s2"
    by (simp_all add: s' reset_def)
  have frame: "response (reset s) = None \<and> error (reset s) = None \<and> last_beat (reset s) = None
       \<and> reader (reset s) = None \<and> writer (reset s) = None
       \<and> connect_errors (reset s) = connect_errors s
       \<and> last_connect_error (reset s) = last_connect_error s
       \<and> disconnections (reset s) = disconnections s
       \<and> last_disconnection (reset s) = last_disconnection s
       \<and> queue (reset s) = queue s \<and> thread (reset s) = thread s \<and> chunk (reset s) = chunk s
       \<and> token (reset s) = token s \<and> ignore_status_codes (reset s) = ignore_status_codes s
       \<and> ignore_errors (reset s) = ignore_errors s \<and> queue_length (reset s) = queue_length s
       \<and> initial_write_timeout (reset s) = initial_write_timeout s
       \<and> host (reset s) = host s \<and> port (reset s) = port s \<and> headers (reset s) = headers s
       \<and> slept (reset s) = slept s"
    by (simp add: reset_def)
  have quiet: "response s = None \<and> error s = None \<Longrightarrow> ?s2 = s"
    by (simp add: raise_for_response_def raise_for_error_def)
  have ce: "connect_errors s \<le> connect_errors ?s2
            \<or> now_response w - last_connect_error s > 32
            \<or> now_error w - last_connect_error s > 32
            \<or> now_error w - now_response w > 32"
    using raise_for_response_cases [of w s] raise_for_error_cases [of w ?s1]
    by (auto simp: back_off_linearly_fields back_off_exponentially_fields split: if_splits)
  have de: "disconnections s \<le> disconnections ?s2 \<or> now_response w - last_disconnection s > 640"
    using raise_for_response_cases [of w s] raise_for_error_cases [of w ?s1]
    by (auto simp: back_off_linearly_fields back_off_exponentially_fields split: if_splits)
  show ?thesis
    using frame s' quiet ce de c by (simp split: if_splits)
qed


theorem reset_keeps_failure_counters_witness:
  "\<not> sw_connected
       ((StreamWriter_init ''tok'' [None, Some 200] [''socket.error''] 500 4 ''host'' 0 0)
          \<lparr>connect_errors := 3, error := Some socket_error\<rparr>)
   \<and> fst (StreamWriter_open \<lparr>now_response = 1, now_error = 1, parse = (\<lambda>r. Inl BadStatusLine)\<rparr>
       ((StreamWriter_init ''tok'' [None, Some 200] [''socket.error''] 500 4 ''host'' 0 0)
          \<lparr>connect_errors := 3, error := Some socket_error\<rparr>)) = None
   \<and> connect_errors (snd (StreamWriter_open \<lparr>now_response = 1, now_error = 1, parse = (\<lambda>r. Inl BadStatusLine)\<rparr>
       ((StreamWriter_init ''tok'' [None, Some 200] [''socket.error''] 500 4 ''host'' 0 0)
          \<lparr>connect_errors := 3, error := Some socket_error\<rparr>))) = 4
   \<and> error (snd (StreamWriter_open \<lparr>now_response = 1, now_error = 1, parse = (\<lambda>r. Inl BadStatusLine)\<rparr>
       ((StreamWriter_init ''tok'' [None, Some 200] [''socket.error''] 500 4 ''host'' 0 0)
          \<lparr>connect_errors := 3, error := Some socket_error\<rparr>))) = None"
proof -
  let ?s = "(StreamWriter_init ''tok'' [None, Some 200] [''socket.error''] 500 4 ''host'' 0 0)
          \<lparr>connect_errors := 3, error := Some socket_error\<rparr>"
  let ?w = "\<lparr>now_response = 1, now_error = 1, parse = (\<lambda>r. Inl BadStatusLine)\<rparr>"
  have nc: "\<not> sw_connected ?s"
    by (simp add: sw_connected_def StreamWriter_init_def)
  have rr: "raise_for_response ?w ?s = (None, ?s)"
    by (simp add: raise_for_response_def StreamWriter_init_def)
  have re: "fst (raise_for_error ?w ?s) = None"
    by (simp add: raise_for_error_def StreamWriter_init_def isinstance_of_def socket_error_def
        back_off_linearly_def Let_def linear_wait_max_def linear_back_off_rate_def)
  have ce: "connect_errors (snd (raise_for_error ?w ?s)) = 4"
    by (simp add: raise_for_error_def StreamWriter_init_def isinstance_of_def socket_error_def
        back_off_linearly_def Let_def linear_wait_max_def linear_back_off_rate_def)
  obtain s2 where r2: "raise_for_error ?w ?s = (None, s2)"
    using re by (cases "raise_for_error ?w ?s") auto
  have op: "StreamWriter_open ?w ?s = (None, snd (StreamWriter_open ?w ?s))"
    using nc by (simp add: StreamWriter_open_def rr r2)
  show ?thesis
    using reset_keeps_failure_counters [OF nc op] nc op rr ce
    by (simp add: reset_def)
qed


subsection \<open>Status codes of a stored response\<close>

text \<open>
  Claim C5 says that an instance made without an override ignores the statuses none, 200
  and 408. The constructor's default is \<^verbatim>\<open>(None, 200)\<close>: 408 is not in it, and a
  stored response of status 408 makes the next \<^verbatim>\<open>open\<close> raise
  \<^verbatim>\<open>ClosedConnection\<close>.
\<close>

theorem default_ignore_status_codes_counterexample:
  "Some 408 \<notin> set (ignore_status_codes (StreamWriter_default ''tok'' ''host'' 0 0))
   \<and> raise_for_response \<lparr>now_response = 1, now_error = 1, parse = (\<lambda>r. Inr (''timeout'', 408))\<rparr>
        ((StreamWriter_default ''tok'' ''host'' 0 0)\<lparr>response := Some ''HTTP/1.1 408''\<rparr>)
       = (Some (ClosedConnection ''timeout'' (Some 408)),
          (StreamWriter_default ''tok'' ''host'' 0 0)\<lparr>response := Some ''HTTP/1.1 408''\<rparr>)"
  by (simp add: StreamWriter_default_def StreamWriter_init_def default_ignore_status_codes_def
      raise_for_response_def)

text \<open>
  Claim C5, amended. An instance made without an override ignores exactly the statuses
  none and 200; the constructor stores whatever codes it is given, so the set is
  configurable per instance. The triple with 408 is the default of \<^verbatim>\<open>reconnect_on\<close>
  of the older \<^verbatim>\<open>Stream.write\<close>, given per call.
\<close>

theorem default_ignore_status_codes_exact:
  "set (ignore_status_codes (StreamWriter_default tok h t1 t2)) = {None, Some 200}
   \<and> ignore_status_codes (StreamWriter_init tok codes errs n tmo h t1 t2) = codes
   \<and> set Stream_write_reconnect_on = {Inl 200, Inr [], Inl 408}"
  by (auto simp: StreamWriter_default_def StreamWriter_init_def default_ignore_status_codes_def
      Stream_write_reconnect_on_def)

text \<open>
  Claim C6. With a response stored: a status outside the instance's ignorable codes makes
  \<^verbatim>\<open>_raise_for_response\<close> raise \<^verbatim>\<open>ClosedConnection\<close> with the message and the
  status; an ignorable status of 500 or more gives the linear back-off, and every other
  ignorable status, the missing status of an unreadable response included, the
  exponential one.
\<close>

theorem raise_for_response_classifies:
  assumes "response s = Some r"
  shows "(parse w r = Inr (m, st) \<longrightarrow>
            raise_for_response w s =
              (if Some st \<notin> set (ignore_status_codes s) then (Some (ClosedConnection m (Some st)), s)
               else if 500 \<le> st then back_off_linearly (now_response w) s
               else back_off_exponentially (now_response w) s))
       \<and> (parse w r = Inl e \<and> isinstance_of e [''AttributeError'', ''BadStatusLine''] \<longrightarrow>
            raise_for_response w s =
              (if None \<notin> set (ignore_status_codes s) then (Some (ClosedConnection [] None), s)
               else back_off_exponentially (now_response w) s))"
  using assms by (simp add: raise_for_response_def status_ge_500_def)

theorem raise_for_response_classifies_witness:
  "raise_for_response \<lparr>now_response = 1, now_error = 1, parse = (\<lambda>r. Inr (''body'', 404))\<rparr>
      ((StreamWriter_init ''tok'' [None, Some 200, Some 503] [] 500 4 ''host'' 0 0)\<lparr>response := Some ''r''\<rparr>)
     = (Some (ClosedConnection ''body'' (Some 404)),
        (StreamWriter_init ''tok'' [None, Some 200, Some 503] [] 500 4 ''host'' 0 0)\<lparr>response := Some ''r''\<rparr>)
   \<and> raise_for_response \<lparr>now_response = 1, now_error = 1, parse = (\<lambda>r. Inr (''body'', 503))\<rparr>
      ((StreamWriter_init ''tok'' [None, Some 200, Some 503] [] 500 4 ''host'' 0 0)\<lparr>response := Some ''r''\<rparr>)
     = back_off_linearly 1
        ((StreamWriter_init ''tok'' [None, Some 200, Some 503] [] 500 4 ''host'' 0 0)\<lparr>response := Some ''r''\<rparr>)
   \<and> raise_for_response \<lparr>now_response = 1, now_error = 1, parse = (\<lambda>r. Inr (''body'', 200))\<rparr>
      ((StreamWriter_init ''tok'' [None, Some 200, Some 503] [] 500 4 ''host'' 0 0)\<lparr>response := Some ''r''\<rparr>)
     = back_off_exponentially 1
        ((StreamWriter_init ''tok'' [None, Some 200, Some 503] [] 500 4 ''host'' 0 0)\<lparr>response := Some ''r''\<rparr>)
   \<and> raise_for_response \<lparr>now_response = 1, now_error = 1, parse = (\<lambda>r. Inl BadStatusLine)\<rparr>
      ((StreamWriter_init ''tok'' [None, Some 200, Some 503] [] 500 4 ''host'' 0 0)\<lparr>response := Some ''r''\<rparr>)
     = back_off_exponentially 1
        ((StreamWriter_init ''tok'' [None, Some 200, Some 503] [] 500 4 ''host'' 0 0)\<lparr>response := Some ''r''\<rparr>)"
proof -
  let ?s = "(StreamWriter_init ''tok'' [None, Some 200, Some 503] [] 500 4 ''host'' 0 0)\<lparr>response := Some ''r''\<rparr>"
  have r: "response ?s = Some ''r''" by simp
  have i: "ignore_status_codes ?s = [None, Some 200, Some 503]"
    by (simp add: StreamWriter_init_def)
  have b: "isinstance_of BadStatusLine [''AttributeError'', ''BadStatusLine'']"
    by (simp add: isinstance_of_def BadStatusLine_def)
  show ?thesis
    using raise_for_response_classifies [OF r, of "\<lparr>now_response = 1, now_error = 1, parse = (\<lambda>r. Inr (''body'', 404))\<rparr>" "''body''" 404]
      raise_for_response_classifies [OF r, of "\<lparr>now_response = 1, now_error = 1, parse = (\<lambda>r. Inr (''body'', 503))\<rparr>" "''body''" 503]
      raise_for_response_classifies [OF r, of "\<lparr>now_response = 1, now_error = 1, parse = (\<lambda>r. Inr (''body'', 200))\<rparr>" "''body''" 200]
      raise_for_response_classifies [OF r, of "\<lparr>now_response = 1, now_error = 1, parse = (\<lambda>r. Inl BadStatusLine)\<rparr>" _ _ BadStatusLine]
      b
    by (simp add: i)
qed


subsection \<open>The order of the drain\<close>

lemma writer_write_frame:
  "queue (snd (writer_write d s)) = queue s" "chunk (snd (writer_write d s)) = chunk s"
  by (simp_all add: writer_write_def split: option.splits)

lemma drain_empty: "items (queue s) = [] \<Longrightarrow> StreamWriter__write bare s = (None, s)"
  by (simp add: StreamWriter__write_def)

lemma drain_nonempty:
  "items (queue s) \<noteq> [] \<Longrightarrow>
   chunk (snd (StreamWriter__write bare s)) = Some (last (items (queue s)))
   \<and> queue (snd (StreamWriter__write bare s)) = (queue s)\<lparr>items := butlast (items (queue s))\<rparr>"
proof -
  assume ne: "items (queue s) \<noteq> []"
  let ?c = "last (items (queue s))"
  let ?s1 = "s\<lparr>queue := (queue s)\<lparr>items := butlast (items (queue s))\<rparr>, chunk := Some ?c\<rparr>"
  have cases: "snd (StreamWriter__write bare s) = ?s1
     \<or> (\<exists>d. snd (StreamWriter__write bare s) = snd (writer_write d ?s1))"
    using ne
    by (cases "writer s"; cases bare; cases "format_message (format_x (len ?c)) ?c")
       (auto simp: StreamWriter__write_def pop_def Let_def encode_utf8_def)
  then show ?thesis
    by (auto simp: writer_write_frame)
qed

lemma drain_transmits:
  "items (queue s) \<noteq> [] \<Longrightarrow> writer s = Some t \<Longrightarrow>
   format_message (format_x (len (last (items (queue s))))) (last (items (queue s))) = Inr m \<Longrightarrow>
   encode_utf8 m = Inr d \<Longrightarrow>
   StreamWriter__write None s =
     (None, s\<lparr>queue := (queue s)\<lparr>items := butlast (items (queue s))\<rparr>,
              chunk := Some (last (items (queue s))),
              writer := Some (t\<lparr>written := written t @ [d]\<rparr>)\<rparr>)"
  by (simp add: StreamWriter__write_def pop_def Let_def writer_write_def)

lemma last_take_rev:
  "xs \<noteq> [] \<Longrightarrow> 0 < C \<Longrightarrow> last (take C (rev xs)) = xs ! (length xs - min C (length xs))"
proof -
  assume a: "xs \<noteq> []" "0 < C"
  let ?k = "min C (length xs)"
  have k: "0 < ?k" "?k \<le> length xs" using a by simp_all
  have ne: "take C (rev xs) \<noteq> []" using a by simp
  have "last (take C (rev xs)) = take C (rev xs) ! (?k - 1)"
    using ne by (simp add: last_conv_nth min.commute)
  also have "\<dots> = rev xs ! (?k - 1)"
  proof -
    have "?k - 1 < C" using a by arith
    then show ?thesis by (rule nth_take)
  qed
  also have "\<dots> = xs ! (length xs - Suc (?k - 1))"
    using k by (intro rev_nth) arith
  also have "\<dots> = xs ! (length xs - ?k)" using k by simp
  finally show ?thesis .
qed


lemma drain_exact:
  assumes "items (queue s) \<noteq> []" and "writer s = Some t"
  shows "StreamWriter__write bare s =
     (case bare of
        Some e \<Rightarrow>
          (Some e, s\<lparr>queue := (queue s)\<lparr>items := butlast (items (queue s))\<rparr>,
                     chunk := Some (last (items (queue s)))\<rparr>)
      | None \<Rightarrow>
          (case format_message (format_x (len (last (items (queue s))))) (last (items (queue s))) of
             Inl e \<Rightarrow>
               (Some e, s\<lparr>queue := (queue s)\<lparr>items := butlast (items (queue s))\<rparr>,
                          chunk := Some (last (items (queue s)))\<rparr>)
           | Inr m \<Rightarrow>
               (case encode_utf8 m of
                  Inl e \<Rightarrow>
                    (Some e, s\<lparr>queue := (queue s)\<lparr>items := butlast (items (queue s))\<rparr>,
                               chunk := Some (last (items (queue s)))\<rparr>)
                | Inr d \<Rightarrow>
                    (None, s\<lparr>queue := (queue s)\<lparr>items := butlast (items (queue s))\<rparr>,
                             chunk := Some (last (items (queue s))),
                             writer := Some (t\<lparr>written := written t @ [d]\<rparr>)\<rparr>))))"
  using assms
  by (cases bare; cases "format_message (format_x (len (last (items (queue s))))) (last (items (queue s)))")
     (auto simp: StreamWriter__write_def pop_def Let_def writer_write_def encode_utf8_def)


text \<open>
  Claim C1 says that the drain takes the most recently written of the remaining chunks
  first. \<^verbatim>\<open>write\<close> puts a chunk on the left end and \<^verbatim>\<open>_write\<close> pops the right
  end: after writing \<^verbatim>\<open>a\<close> and then \<^verbatim>\<open>b\<close> the drain takes \<^verbatim>\<open>a\<close>, not
  \<^verbatim>\<open>b\<close>, whether the argument-less write of the transport returns (then
  \<^verbatim>\<open>a\<close> is what is sent) or raises \<^verbatim>\<open>TypeError\<close> (then nothing is sent).
\<close>

theorem drain_order_counterexample:
  "chunk (snd (StreamWriter__write None
      ((snd (write_all \<lparr>now_response = 0, now_error = 0, parse = (\<lambda>r. Inl BadStatusLine)\<rparr>
               [Str ''a'', Str ''b''] (StreamWriter_default ''tok'' ''host'' 0 0)))
         \<lparr>writer := Some \<lparr>written = [], closed = False\<rparr>\<rparr>)))
     = Some (Str [CHR ''a'', CHR 0x0A])
   \<and> add_newline (Str ''b'') \<noteq> Str [CHR ''a'', CHR 0x0A]
   \<and> writer (snd (StreamWriter__write None
      ((snd (write_all \<lparr>now_response = 0, now_error = 0, parse = (\<lambda>r. Inl BadStatusLine)\<rparr>
               [Str ''a'', Str ''b''] (StreamWriter_default ''tok'' ''host'' 0 0)))
         \<lparr>writer := Some \<lparr>written = [], closed = False\<rparr>\<rparr>)))
     = Some \<lparr>written = [[CHR ''2'', CHR 0x0D, CHR 0x0A, CHR ''a'', CHR 0x0A, CHR 0x0D, CHR 0x0A]],
             closed = False\<rparr>
   \<and> chunk (snd (StreamWriter__write (Some TypeError)
      ((snd (write_all \<lparr>now_response = 0, now_error = 0, parse = (\<lambda>r. Inl BadStatusLine)\<rparr>
               [Str ''a'', Str ''b''] (StreamWriter_default ''tok'' ''host'' 0 0)))
         \<lparr>writer := Some \<lparr>written = [], closed = False\<rparr>\<rparr>)))
     = Some (Str [CHR ''a'', CHR 0x0A])
   \<and> items (queue (snd (StreamWriter__write (Some TypeError)
      ((snd (write_all \<lparr>now_response = 0, now_error = 0, parse = (\<lambda>r. Inl BadStatusLine)\<rparr>
               [Str ''a'', Str ''b''] (StreamWriter_default ''tok'' ''host'' 0 0)))
         \<lparr>writer := Some \<lparr>written = [], closed = False\<rparr>\<rparr>))))
     = [Str [CHR ''b'', CHR 0x0A]]"
proof -
  let ?w = "\<lparr>now_response = 0, now_error = 0, parse = (\<lambda>r. Inl BadStatusLine)\<rparr>"
  let ?s0 = "StreamWriter_default ''tok'' ''host'' 0 0"
  define sw where "sw = snd (write_all ?w [Str ''a'', Str ''b''] ?s0)"
  have a: "\<not> sw_connected ?s0" "response ?s0 = None" "error ?s0 = None"
    by (simp_all add: StreamWriter_default_def StreamWriter_init_def sw_connected_def)
  have q0: "queue ?s0 = \<lparr>items = [], maxlen = 500\<rparr>"
    by (simp add: StreamWriter_default_def StreamWriter_init_def deque_new_def default_queue_length_def)
  have q: "queue sw = \<lparr>items = [Str [CHR ''b'', CHR 0x0A], Str [CHR ''a'', CHR 0x0A]], maxlen = 500\<rparr>"
    unfolding sw_def
    by (subst write_all_fresh [OF a]) (simp_all add: q0 appendleft_def add_newline_def)
  let ?s = "sw\<lparr>writer := Some \<lparr>written = [], closed = False\<rparr>\<rparr>"
  have ne: "items (queue ?s) \<noteq> []" by (simp add: q)
  have l: "last (items (queue ?s)) = Str [CHR ''a'', CHR 0x0A]" by (simp add: q)
  have fm: "format_message (format_x (len (last (items (queue ?s))))) (last (items (queue ?s)))
            = Inr [CHR ''2'', CHR 0x0D, CHR 0x0A, CHR ''a'', CHR 0x0A, CHR 0x0D, CHR 0x0A]"
    unfolding l by (simp add: len_def format_message_def hex_digit_def format_x.simps)
  have en: "encode_utf8 [CHR ''2'', CHR 0x0D, CHR 0x0A, CHR ''a'', CHR 0x0A, CHR 0x0D, CHR 0x0A]
            = Inr [CHR ''2'', CHR 0x0D, CHR 0x0A, CHR ''a'', CHR 0x0A, CHR 0x0D, CHR 0x0A]"
    by (simp add: encode_utf8_def ascii_def)
  have w: "writer ?s = Some \<lparr>written = [], closed = False\<rparr>" by simp
  have n: "chunk (snd (StreamWriter__write None ?s)) = Some (Str [CHR ''a'', CHR 0x0A])
      \<and> add_newline (Str ''b'') \<noteq> Str [CHR ''a'', CHR 0x0A]
      \<and> writer (snd (StreamWriter__write None ?s))
          = Some \<lparr>written = [[CHR ''2'', CHR 0x0D, CHR 0x0A, CHR ''a'', CHR 0x0A, CHR 0x0D, CHR 0x0A]],
                  closed = False\<rparr>"
    unfolding drain_transmits [OF ne w fm en] by (simp add: q add_newline_def)
  have r: "chunk (snd (StreamWriter__write (Some TypeError) ?s)) = Some (Str [CHR ''a'', CHR 0x0A])
      \<and> items (queue (snd (StreamWriter__write (Some TypeError) ?s))) = [Str [CHR ''b'', CHR 0x0A]]"
    using drain_nonempty [OF ne, of "Some TypeError"] by (simp add: q)
  show ?thesis using n r unfolding sw_def by simp
qed


text \<open>
  Claim C1, amended. After the strings \<open>cs\<close> have been written on a fresh instance
  of capacity \<open>C\<close> and the connection is there, the drain removes the oldest chunk
  still on the queue (first in, first out), the one written \<open>min C (length cs)\<close> calls
  ago, whatever else the call does. The only bytes it writes to the transport are the
  message of that chunk, and it writes them when the argument-less write of the transport
  returns and the message can be formatted and encoded. On an empty queue the drain
  changes nothing and writes nothing.
\<close>

theorem drain_takes_oldest:
  assumes "cs \<noteq> []" and "0 < C"
    and "s = (snd (write_all w cs (StreamWriter_init tok codes errs C tmo h t1 t2)))
               \<lparr>reader := Some (), writer := Some t\<rparr>"
    and "c = add_newline (cs ! (length cs - min C (length cs)))"
  shows "chunk (snd (StreamWriter__write bare s)) = Some c
       \<and> items (queue (snd (StreamWriter__write bare s))) = butlast (items (queue s))
       \<and> StreamWriter__write bare s =
           (case bare of
              Some e \<Rightarrow>
                (Some e, s\<lparr>queue := (queue s)\<lparr>items := butlast (items (queue s))\<rparr>, chunk := Some c\<rparr>)
            | None \<Rightarrow>
                (case format_message (format_x (len c)) c of
                   Inl e \<Rightarrow>
                     (Some e, s\<lparr>queue := (queue s)\<lparr>items := butlast (items (queue s))\<rparr>,
                                chunk := Some c\<rparr>)
                 | Inr m \<Rightarrow>
                     (case encode_utf8 m of
                        Inl e \<Rightarrow>
                          (Some e, s\<lparr>queue := (queue s)\<lparr>items := butlast (items (queue s))\<rparr>,
                                     chunk := Some c\<rparr>)
                      | Inr d \<Rightarrow>
                          (None, s\<lparr>queue := (queue s)\<lparr>items := butlast (items (queue s))\<rparr>,
                                   chunk := Some c,
                                   writer := Some (t\<lparr>written := written t @ [d]\<rparr>)\<rparr>))))
       \<and> (items (queue s') = [] \<longrightarrow> StreamWriter__write bare s' = (None, s'))"
proof -
  let ?s0 = "StreamWriter_init tok codes errs C tmo h t1 t2"
  define sw where "sw = snd (write_all w cs ?s0)"
  have a: "\<not> sw_connected ?s0" "response ?s0 = None" "error ?s0 = None"
    by (simp_all add: StreamWriter_init_def sw_connected_def)
  have q0: "items (queue ?s0) = []" "maxlen (queue ?s0) = C"
    by (simp_all add: StreamWriter_init_def deque_new_def)
  have "queue sw = fold appendleft (map add_newline cs) (queue ?s0)"
    unfolding sw_def by (subst write_all_fresh [OF a assms(1)]) simp
  then have "items (queue sw) = take C (rev (map add_newline cs))"
    using fold_appendleft_items [of "queue ?s0" "map add_newline cs"] q0 by simp
  then have q: "items (queue s) = take C (rev (map add_newline cs))"
    using assms(3) by (simp add: sw_def)
  have ne: "items (queue s) \<noteq> []"
    using q assms(1,2) by simp
  have "last (items (queue s)) = map add_newline cs ! (length cs - min C (length cs))"
    using last_take_rev [of "map add_newline cs" C] assms(1,2) by (simp add: q)
  also have "\<dots> = c"
    using assms(1,2,4) by (simp add: min_def)
  finally have l: "last (items (queue s)) = c" .
  have w: "writer s = Some t" using assms(3) by simp
  have p1: "chunk (snd (StreamWriter__write bare s)) = Some c
       \<and> items (queue (snd (StreamWriter__write bare s))) = butlast (items (queue s))"
    using drain_nonempty [OF ne, of bare] by (simp add: l)
  have p3: "items (queue s') = [] \<longrightarrow> StreamWriter__write bare s' = (None, s')"
    using drain_empty [of s' bare] by simp
  show ?thesis
    using p1 p3 drain_exact [OF ne w, of bare] unfolding l by blast
qed

theorem drain_takes_oldest_witness:
  "chunk (snd (StreamWriter__write None
      ((snd (write_all \<lparr>now_response = 0, now_error = 0, parse = (\<lambda>r. Inl BadStatusLine)\<rparr>
               [Str ''a'', Str ''b'', Str ''c''] (StreamWriter_init ''tok'' [None, Some 200] [] 2 4 ''host'' 0 0)))
         \<lparr>reader := Some (), writer := Some \<lparr>written = [], closed = False\<rparr>\<rparr>)))
     = Some (Str [CHR ''b'', CHR 0x0A])
   \<and> writer (snd (StreamWriter__write None
      ((snd (write_all \<lparr>now_response = 0, now_error = 0, parse = (\<lambda>r. Inl BadStatusLine)\<rparr>
               [Str ''a'', Str ''b'', Str ''c''] (StreamWriter_init ''tok'' [None, Some 200] [] 2 4 ''host'' 0 0)))
         \<lparr>reader := Some (), writer := Some \<lparr>written = [], closed = False\<rparr>\<rparr>)))
     = Some \<lparr>written = [[CHR ''2'', CHR 0x0D, CHR 0x0A, CHR ''b'', CHR 0x0A, CHR 0x0D, CHR 0x0A]],
             closed = False\<rparr>
   \<and> chunk (snd (StreamWriter__write (Some TypeError)
      ((snd (write_all \<lparr>now_response = 0, now_error = 0, parse = (\<lambda>r. Inl BadStatusLine)\<rparr>
               [Str ''a'', Str ''b'', Str ''c''] (StreamWriter_init ''tok'' [None, Some 200] [] 2 4 ''host'' 0 0)))
         \<lparr>reader := Some (), writer := Some \<lparr>written = [], closed = False\<rparr>\<rparr>)))
     = Some (Str [CHR ''b'', CHR 0x0A])
   \<and> writer (snd (StreamWriter__write (Some TypeError)
      ((snd (write_all \<lparr>now_response = 0, now_error = 0, parse = (\<lambda>r. Inl BadStatusLine)\<rparr>
               [Str ''a'', Str ''b'', Str ''c''] (StreamWriter_init ''tok'' [None, Some 200] [] 2 4 ''host'' 0 0)))
         \<lparr>reader := Some (), writer := Some \<lparr>written = [], closed = False\<rparr>\<rparr>)))
     = Some \<lparr>written = [], closed = False\<rparr>"
proof -
  let ?w = "\<lparr>now_response = 0, now_error = 0, parse = (\<lambda>r. Inl BadStatusLine)\<rparr>"
  let ?cs = "[Str ''a'', Str ''b'', Str ''c'']"
  define s where "s = (snd (write_all ?w ?cs (StreamWriter_init ''tok'' [None, Some 200] [] 2 4 ''host'' 0 0)))
         \<lparr>reader := Some (), writer := Some \<lparr>written = [], closed = False\<rparr>\<rparr>"
  let ?c = "Str [CHR ''b'', CHR 0x0A]"
  let ?m = "[CHR ''2'', CHR 0x0D, CHR 0x0A, CHR ''b'', CHR 0x0A, CHR 0x0D, CHR 0x0A]"
  have h1: "?cs \<noteq> []" by simp
  have h2: "(0::nat) < 2" by simp
  have h4: "?c = add_newline (?cs ! (length ?cs - min 2 (length ?cs)))"
    by (simp add: add_newline_def)
  have fm: "format_message (format_x (len ?c)) ?c = Inr ?m"
    by (simp add: len_def format_message_def hex_digit_def format_x.simps)
  have en: "encode_utf8 ?m = Inr ?m"
    by (simp add: encode_utf8_def ascii_def)
  have n: "chunk (snd (StreamWriter__write None s)) = Some ?c
      \<and> writer (snd (StreamWriter__write None s)) = Some \<lparr>written = [?m], closed = False\<rparr>"
    using drain_takes_oldest [OF h1 h2 s_def h4, of None] fm en by simp
  have ws: "writer s = Some \<lparr>written = [], closed = False\<rparr>" by (simp add: s_def)
  have r: "chunk (snd (StreamWriter__write (Some TypeError) s)) = Some ?c
      \<and> writer (snd (StreamWriter__write (Some TypeError) s)) = Some \<lparr>written = [], closed = False\<rparr>"
    using drain_takes_oldest [OF h1 h2 s_def h4, of "Some TypeError"] ws by simp
  show ?thesis using n r unfolding s_def by simp
qed


subsection \<open>Encoding a chunk and decoding it\<close>

lemma hex_val_digit: "d < 16 \<Longrightarrow> hex_val (hex_digit d) = Some d"
proof -
  assume "d < 16"
  then have "d = 0 \<or> d = 1 \<or> d = 2 \<or> d = 3 \<or> d = 4 \<or> d = 5 \<or> d = 6 \<or> d = 7
           \<or> d = 8 \<or> d = 9 \<or> d = 10 \<or> d = 11 \<or> d = 12 \<or> d = 13 \<or> d = 14 \<or> d = 15"
    by arith
  then show ?thesis
    by (elim disjE) (simp_all add: hex_digit_def hex_val_def)
qed

lemma hex_digit_ascii: "d < 16 \<Longrightarrow> (of_char (hex_digit d) :: nat) < 128"
proof -
  assume "d < 16"
  then have "d = 0 \<or> d = 1 \<or> d = 2 \<or> d = 3 \<or> d = 4 \<or> d = 5 \<or> d = 6 \<or> d = 7
           \<or> d = 8 \<or> d = 9 \<or> d = 10 \<or> d = 11 \<or> d = 12 \<or> d = 13 \<or> d = 14 \<or> d = 15"
    by arith
  then show ?thesis
    by (elim disjE) (simp_all add: hex_digit_def)
qed

lemma format_x_ascii: "ascii (format_x n)"
proof (induction n rule: format_x.induct)
  case (1 n)
  show ?case
  proof (cases "n < 16")
    case True
    then show ?thesis by (simp add: format_x.simps [of n] ascii_def hex_digit_ascii)
  next
    case False
    then have "ascii (format_x (n div 16))" using 1 by simp
    then show ?thesis
      using False by (simp add: format_x.simps [of n] ascii_def hex_digit_ascii)
  qed
qed

lemma format_x_head: "\<exists>c r. format_x n = c # r \<and> hex_val c \<noteq> None"
proof (induction n rule: format_x.induct)
  case (1 n)
  show ?case
  proof (cases "n < 16")
    case True
    then show ?thesis by (simp add: format_x.simps [of n] hex_val_digit)
  next
    case False
    then obtain c r where "format_x (n div 16) = c # r" "hex_val c \<noteq> None"
      using 1 by auto
    then show ?thesis
      using False by (simp add: format_x.simps [of n])
  qed
qed

lemma read_hex_format_x:
  "read_hex acc (format_x n @ r) = read_hex (acc * 16 ^ length (format_x n) + n) r"
proof (induction n arbitrary: acc r rule: format_x.induct)
  case (1 n)
  show ?case
  proof (cases "n < 16")
    case True
    then show ?thesis by (simp add: format_x.simps [of n] hex_val_digit mult.commute)
  next
    case False
    have m: "n mod 16 < 16" by simp
    have "read_hex acc (format_x n @ r)
          = read_hex acc (format_x (n div 16) @ (hex_digit (n mod 16) # r))"
      using False by (simp add: format_x.simps [of n])
    also have "\<dots> = read_hex (acc * 16 ^ length (format_x (n div 16)) + n div 16)
                        (hex_digit (n mod 16) # r)"
      using 1 [OF False] by simp
    also have "\<dots> = read_hex (16 * (acc * 16 ^ length (format_x (n div 16)) + n div 16) + n mod 16) r"
      by (simp add: hex_val_digit [OF m])
    also have "16 * (acc * 16 ^ length (format_x (n div 16)) + n div 16) + n mod 16
               = acc * 16 ^ length (format_x n) + n"
      using False by (simp add: format_x.simps [of n] algebra_simps)
    finally show ?thesis .
  qed
qed

lemma chunk_decode_message:
  "chunk_decode (format_x (length b) @ eol @ b @ eol) = Some b"
proof -
  obtain c r where h: "format_x (length b) = c # r" "hex_val c \<noteq> None"
    using format_x_head by blast
  have cr: "hex_val (CHR 0x0D) = None" by (simp add: hex_val_def)
  have "read_hex 0 (format_x (length b) @ (eol @ b @ eol)) = read_hex (length b) (eol @ b @ eol)"
    by (simp add: read_hex_format_x)
  also have "\<dots> = (length b, eol @ b @ eol)"
    by (simp add: eol_def cr)
  finally have rh: "read_hex 0 (format_x (length b) @ eol @ b @ eol) = (length b, eol @ b @ eol)"
    by simp
  show ?thesis
    unfolding chunk_decode_def rh using h by (simp add: eol_def)
qed


lemma ascii_append [simp]: "ascii (xs @ ys) = (ascii xs \<and> ascii ys)"
  by (simp add: ascii_def)

text \<open>
  A chunk of ASCII text, byte string or \<^verbatim>\<open>unicode\<close>: the message built for it is one
  well-formed chunk, and decoding it gives the text and the line break \<^verbatim>\<open>write\<close>
  added.
\<close>

lemma str_chunk_round_trip:
  assumes "ascii b"
  shows "\<exists>m. format_message (format_x (len (add_newline (Str b)))) (add_newline (Str b)) = Inr m
             \<and> encode_utf8 m = Inr m
             \<and> chunk_decode m = Some (b @ [CHR 0x0A])"
proof -
  let ?b = "b @ [CHR 0x0A]"
  let ?m = "format_x (length ?b) @ eol @ ?b @ eol"
  have f: "format_message (format_x (len (add_newline (Str b)))) (add_newline (Str b)) = Inr ?m"
    by (simp add: add_newline_def len_def format_message_def eol_def)
  have a: "ascii ?m"
    using assms format_x_ascii [of "length ?b"] by (simp add: eol_def) (simp add: ascii_def)
  have e: "encode_utf8 ?m = Inr ?m"
    using a by (simp add: encode_utf8_def)
  show ?thesis
    using f e chunk_decode_message [of ?b] by blast
qed

lemma unicode_chunk_round_trip:
  assumes "list_all (\<lambda>p. p < 128) u"
  shows "\<exists>m. format_message (format_x (len (add_newline (Unicode u)))) (add_newline (Unicode u)) = Inr m
             \<and> encode_utf8 m = Inr m
             \<and> chunk_decode m = Some (map char_of u @ [CHR 0x0A])"
proof -
  let ?b = "map char_of u @ [CHR 0x0A]"
  let ?m = "format_x (length ?b) @ eol @ ?b @ eol"
  have nl: "char_of (10::nat) = CHR 0x0A" by code_simp
  have f: "format_message (format_x (len (add_newline (Unicode u)))) (add_newline (Unicode u)) = Inr ?m"
    using assms by (simp add: add_newline_def len_def format_message_def eol_def nl)
  have "ascii (map char_of u)"
    using assms by (induction u) (simp_all add: ascii_def)
  then have a: "ascii ?m"
    using format_x_ascii [of "length ?b"] by (simp add: eol_def) (simp add: ascii_def)
  have e: "encode_utf8 ?m = Inr ?m"
    using a by (simp add: encode_utf8_def)
  show ?thesis
    using f e chunk_decode_message [of ?b] by blast
qed

text \<open>
  Claim C7 asks that every chunk written comes out of the decoding as it went in, with
  one line break added. The one-character string \<^verbatim>\<open>u'\xe9'\<close> does not: formatting
  the message raises \<^verbatim>\<open>UnicodeEncodeError\<close>, the chunk has left the queue, and
  nothing is written to the transport.
\<close>

theorem non_ascii_chunk_not_sent:
  "fst (StreamWriter__write None
      ((snd (StreamWriter_write \<lparr>now_response = 0, now_error = 0, parse = (\<lambda>r. Inl BadStatusLine)\<rparr>
               (Text (Unicode [233])) (StreamWriter_default ''tok'' ''host'' 0 0)))
         \<lparr>reader := Some (), writer := Some \<lparr>written = [], closed = False\<rparr>\<rparr>))
     = Some UnicodeEncodeError
   \<and> writer (snd (StreamWriter__write None
      ((snd (StreamWriter_write \<lparr>now_response = 0, now_error = 0, parse = (\<lambda>r. Inl BadStatusLine)\<rparr>
               (Text (Unicode [233])) (StreamWriter_default ''tok'' ''host'' 0 0)))
         \<lparr>reader := Some (), writer := Some \<lparr>written = [], closed = False\<rparr>\<rparr>)))
     = Some \<lparr>written = [], closed = False\<rparr>
   \<and> items (queue (snd (StreamWriter__write None
      ((snd (StreamWriter_write \<lparr>now_response = 0, now_error = 0, parse = (\<lambda>r. Inl BadStatusLine)\<rparr>
               (Text (Unicode [233])) (StreamWriter_default ''tok'' ''host'' 0 0)))
         \<lparr>reader := Some (), writer := Some \<lparr>written = [], closed = False\<rparr>\<rparr>)))) = []"
proof -
  let ?w = "\<lparr>now_response = 0, now_error = 0, parse = (\<lambda>r. Inl BadStatusLine)\<rparr>"
  let ?s0 = "StreamWriter_default ''tok'' ''host'' 0 0"
  define sw where "sw = snd (StreamWriter_write ?w (Text (Unicode [233])) ?s0)"
  have a: "\<not> sw_connected ?s0" "response ?s0 = None" "error ?s0 = None"
    by (simp_all add: StreamWriter_default_def StreamWriter_init_def sw_connected_def)
  have q0: "queue ?s0 = \<lparr>items = [], maxlen = 500\<rparr>"
    by (simp add: StreamWriter_default_def StreamWriter_init_def deque_new_def default_queue_length_def)
  have q: "queue sw = \<lparr>items = [Unicode [233, 10]], maxlen = 500\<rparr>"
    unfolding sw_def using a
    by (simp add: StreamWriter_write_def open_no_failure reset_def q0 appendleft_def add_newline_def)
  let ?s = "sw\<lparr>reader := Some (), writer := Some \<lparr>written = [], closed = False\<rparr>\<rparr>"
  have "StreamWriter__write None ?s
        = (Some UnicodeEncodeError,
           ?s\<lparr>queue := \<lparr>items = [], maxlen = 500\<rparr>, chunk := Some (Unicode [233, 10])\<rparr>)"
    by (simp add: StreamWriter__write_def q pop_def Let_def format_message_def)
  then have "fst (StreamWriter__write None ?s) = Some UnicodeEncodeError
      \<and> writer (snd (StreamWriter__write None ?s)) = Some \<lparr>written = [], closed = False\<rparr>
      \<and> items (queue (snd (StreamWriter__write None ?s))) = []"
    by simp
  then show ?thesis unfolding sw_def .
qed


subsection \<open>The heartbeat\<close>

lemma back_off_frame:
  "last_beat (snd (back_off_linearly now s)) = last_beat s"
  "queue (snd (back_off_linearly now s)) = queue s"
  "last_beat (snd (back_off_exponentially now s)) = last_beat s"
  "queue (snd (back_off_exponentially now s)) = queue s"
  by (simp_all add: back_off_linearly_def back_off_exponentially_def Let_def)

lemma raise_for_response_frame:
  "last_beat (snd (raise_for_response w s)) = last_beat s"
  "queue (snd (raise_for_response w s)) = queue s"
  using raise_for_response_cases [of w s] by (auto simp: back_off_frame)

lemma raise_for_error_frame:
  "last_beat (snd (raise_for_error w s)) = last_beat s"
  "queue (snd (raise_for_error w s)) = queue s"
  using raise_for_error_cases [of w s] by (auto simp: back_off_frame)

lemma open_cases:
  "snd (StreamWriter_open w s) = s
   \<or> snd (StreamWriter_open w s) = snd (raise_for_response w s)
   \<or> snd (StreamWriter_open w s) = snd (raise_for_error w (snd (raise_for_response w s)))
   \<or> snd (StreamWriter_open w s)
        = (reset (snd (raise_for_error w (snd (raise_for_response w s)))))
            \<lparr>thread := Some \<lparr>isAlive = True, thread_connected = True\<rparr>\<rparr>"
  by (cases "raise_for_response w s"; cases "raise_for_error w (snd (raise_for_response w s))")
     (auto simp: StreamWriter_open_def split: option.splits)

lemma open_frame:
  "last_beat (snd (StreamWriter_open w s)) = last_beat s \<or> last_beat (snd (StreamWriter_open w s)) = None"
  "queue (snd (StreamWriter_open w s)) = queue s"
  using open_cases [of w s]
  by (auto simp: raise_for_response_frame raise_for_error_frame reset_def)

lemma write_cases:
  "snd (StreamWriter_write w c s) = s
   \<or> snd (StreamWriter_write w c s) = snd (StreamWriter_open w s)
   \<or> (\<exists>t. snd (StreamWriter_write w c s) = s\<lparr>queue := appendleft (add_newline t) (queue s)\<rparr>)
   \<or> (\<exists>t. snd (StreamWriter_write w c s)
          = (snd (StreamWriter_open w s))\<lparr>queue := appendleft (add_newline t) (queue (snd (StreamWriter_open w s)))\<rparr>)"
  by (cases "StreamWriter_open w s"; cases c)
     (auto simp: StreamWriter_write_def split: option.splits sum.splits)

lemma write_frame:
  "last_beat (snd (StreamWriter_write w c s)) = last_beat s
   \<or> last_beat (snd (StreamWriter_write w c s)) = None"
  using write_cases [of w c s] open_frame(1) [of w s] by auto

lemma drain_frame: "last_beat (snd (StreamWriter__write bare s)) = last_beat s"
proof (cases "items (queue s) = []")
  case True
  then show ?thesis by (simp add: drain_empty)
next
  case False
  let ?c = "last (items (queue s))"
  let ?s1 = "s\<lparr>queue := (queue s)\<lparr>items := butlast (items (queue s))\<rparr>, chunk := Some ?c\<rparr>"
  have "snd (StreamWriter__write bare s) = ?s1
     \<or> (\<exists>d. snd (StreamWriter__write bare s) = snd (writer_write d ?s1))"
    using False
    by (cases "writer s"; cases bare; cases "format_message (format_x (len ?c)) ?c")
       (auto simp: StreamWriter__write_def pop_def Let_def encode_utf8_def)
  then show ?thesis
    by (auto simp: writer_write_def split: option.splits)
qed

lemma check_pulse_unfold:
  "check_pulse t1 t2 w s =
     (if t2 - beat_of t1 s > 30
      then (if items (queue s) = []
            then StreamWriter_write w (Text (Str [])) (s\<lparr>last_beat := Some t2\<rparr>)
            else (None, s\<lparr>last_beat := Some t2\<rparr>))
      else (None, s\<lparr>last_beat := Some (beat_of t1 s)\<rparr>))"
proof (cases "last_beat s")
  case None
  then show ?thesis by (simp add: check_pulse_def beat_of_def Let_def)
next
  case (Some b)
  then show ?thesis
    by (cases "b = 0") (simp_all add: check_pulse_def beat_of_def Let_def)
qed

lemma check_pulse_idle:
  "\<not> t2 - beat_of t1 s > 30 \<Longrightarrow>
   check_pulse t1 t2 w s = (None, s\<lparr>last_beat := Some (beat_of t1 s)\<rparr>)"
  by (simp add: check_pulse_unfold)

lemma check_pulse_busy:
  "t2 - beat_of t1 s > 30 \<Longrightarrow> items (queue s) \<noteq> [] \<Longrightarrow>
   check_pulse t1 t2 w s = (None, s\<lparr>last_beat := Some t2\<rparr>)"
  by (simp add: check_pulse_unfold)

lemma check_pulse_beat:
  "t2 - beat_of t1 s > 30 \<Longrightarrow> items (queue s) = [] \<Longrightarrow>
   check_pulse t1 t2 w s = StreamWriter_write w (Text (Str [])) (s\<lparr>last_beat := Some t2\<rparr>)"
  by (simp add: check_pulse_unfold)

lemma check_pulse_only_when:
  "queue (snd (check_pulse t1 t2 w s)) \<noteq> queue s \<Longrightarrow>
   t2 - beat_of t1 s > 30 \<and> items (queue s) = []"
proof (rule ccontr)
  assume ch: "queue (snd (check_pulse t1 t2 w s)) \<noteq> queue s"
  assume n: "\<not> (t2 - beat_of t1 s > 30 \<and> items (queue s) = [])"
  show False
  proof (cases "t2 - beat_of t1 s > 30")
    case True
    with n have "items (queue s) \<noteq> []" by simp
    then show False using ch check_pulse_busy [OF True, of w] by simp
  next
    case False
    then show False using ch check_pulse_idle [OF False, of w] by simp
  qed
qed

lemma check_pulse_last_beat:
  "last_beat (snd (check_pulse t1 t2 w s)) = None
   \<or> last_beat (snd (check_pulse t1 t2 w s)) = Some t2
   \<or> (last_beat (snd (check_pulse t1 t2 w s)) = Some (beat_of t1 s)
       \<and> queue (snd (check_pulse t1 t2 w s)) = queue s)"
proof (cases "t2 - beat_of t1 s > 30")
  case False
  then show ?thesis by (simp add: check_pulse_idle)
next
  case True
  show ?thesis
  proof (cases "items (queue s) = []")
    case False
    then show ?thesis by (simp add: check_pulse_busy [OF True])
  next
    case e: True
    show ?thesis
      using write_frame [of w "Text (Str [])" "s\<lparr>last_beat := Some t2\<rparr>"]
      by (auto simp: check_pulse_beat [OF True e])
  qed
qed

lemma beat_of_ge: "beat_inv T s \<Longrightarrow> T \<le> t1 \<Longrightarrow> T \<le> beat_of t1 s"
  by (auto simp: beat_inv_def beat_of_def split: option.splits)

lemma exec_other_inv:
  "beat_inv T s \<Longrightarrow> (\<And>t1 t2 w. c \<noteq> Pulse t1 t2 w) \<Longrightarrow> beat_inv T (exec c s)"
proof (cases c)
  case (Write w p)
  assume "beat_inv T s"
  then show ?thesis
    using write_frame [of w p s] Write by (auto simp: beat_inv_def)
next
  case (Open w)
  assume "beat_inv T s"
  then show ?thesis
    using open_frame(1) [of w s] Open by (auto simp: beat_inv_def)
next
  case (Drain b)
  assume "beat_inv T s"
  then show ?thesis
    using Drain by (simp add: beat_inv_def drain_frame)
qed (auto simp: beat_inv_def StreamWriter_close_def)

lemma spaced_from:
  "chrono t cs \<Longrightarrow> beat_inv T s \<Longrightarrow> T \<le> t \<Longrightarrow> spaced (T # heartbeats cs s)"
proof (induction cs arbitrary: t T s)
  case Nil
  then show ?case by simp
next
  case (Cons c cs)
  show ?case
  proof (cases "\<exists>t1 t2 w. c = Pulse t1 t2 w")
    case False
    then have np: "\<And>t1 t2 w. c \<noteq> Pulse t1 t2 w" by blast
    have ch: "chrono t cs" using Cons.prems(1) np by (cases c) auto
    have hb: "heartbeats (c # cs) s = heartbeats cs (exec c s)"
      using np by (cases c) auto
    show ?thesis
      using Cons.IH [OF ch exec_other_inv [OF Cons.prems(2) np] Cons.prems(3)] hb by simp
  next
    case True
    then obtain t1 t2 w where c: "c = Pulse t1 t2 w" by blast
    have tt: "t \<le> t1" "t1 \<le> t2" and ch: "chrono t2 cs"
      using Cons.prems(1) c by simp_all
    have T1: "T \<le> t1" and T2: "T \<le> t2" using tt Cons.prems(3) by simp_all
    have bg: "T \<le> beat_of t1 s" using beat_of_ge [OF Cons.prems(2) T1] .
    let ?s' = "snd (check_pulse t1 t2 w s)"
    show ?thesis
    proof (cases "queue ?s' \<noteq> queue s")
      case True
      have gap: "t2 - beat_of t1 s > 30"
        using check_pulse_only_when [OF True] by simp
      have lb: "last_beat ?s' = None \<or> last_beat ?s' = Some t2"
        using check_pulse_last_beat [of t1 t2 w s] True by auto
      then have inv: "beat_inv t2 ?s'" by (auto simp: beat_inv_def)
      have "spaced (t2 # heartbeats cs ?s')"
        using Cons.IH [OF ch inv] by simp
      moreover have "t2 - T > 30" using gap bg by simp
      ultimately show ?thesis
        using True c by simp
    next
      case False
      have "last_beat ?s' = None \<or> last_beat ?s' = Some t2 \<or> last_beat ?s' = Some (beat_of t1 s)"
        using check_pulse_last_beat [of t1 t2 w s] by auto
      then have inv: "beat_inv T ?s'"
        using bg T2 by (auto simp: beat_inv_def)
      show ?thesis
        using Cons.IH [OF ch inv T2] False c by simp
    qed
  qed
qed

lemma spaced_tail: "spaced (a # hs) \<Longrightarrow> spaced hs"
  by (cases hs) simp_all

text \<open>
  Claim C9. A call of \<^verbatim>\<open>_check_pulse\<close> puts a keep-alive on the queue only when its
  clock reading is more than 30 seconds after the last recorded beat and the queue is
  empty. In any history of the instance whose clock does not run backwards, two
  heartbeats in a row are more than 30 seconds apart, so no window of 30 seconds has two.
\<close>

theorem heartbeat_only_when_idle_and_spaced:
  "(queue (snd (check_pulse t1 t2 w s)) \<noteq> queue s \<longrightarrow>
      t2 - (case last_beat s of None \<Rightarrow> t1 | Some b \<Rightarrow> if b = 0 then t1 else b) > 30
      \<and> items (queue s) = [])
   \<and> (chrono t cs \<longrightarrow> spaced (heartbeats cs s))"
proof -
  have "chrono t cs \<Longrightarrow> spaced (heartbeats cs s)"
  proof -
    assume ch: "chrono t cs"
    define T where "T = (case last_beat s of None \<Rightarrow> t | Some b \<Rightarrow> min b t)"
    have "beat_inv T s" "T \<le> t"
      by (auto simp: beat_inv_def T_def split: option.splits)
    then show ?thesis
      using spaced_from [OF ch] spaced_tail by blast
  qed
  then show ?thesis
    using check_pulse_only_when [of t1 t2 w s] by (auto simp: beat_of_def)
qed

theorem heartbeat_only_when_idle_and_spaced_witness:
  "chrono 0 [Open \<lparr>now_response = 0, now_error = 0, parse = (\<lambda>r. Inl BadStatusLine)\<rparr>,
             Pulse 100 100 \<lparr>now_response = 0, now_error = 0, parse = (\<lambda>r. Inl BadStatusLine)\<rparr>,
             Pulse 131 131 \<lparr>now_response = 0, now_error = 0, parse = (\<lambda>r. Inl BadStatusLine)\<rparr>,
             Drain None,
             Pulse 140 140 \<lparr>now_response = 0, now_error = 0, parse = (\<lambda>r. Inl BadStatusLine)\<rparr>,
             Pulse 162 162 \<lparr>now_response = 0, now_error = 0, parse = (\<lambda>r. Inl BadStatusLine)\<rparr>]
   \<and> heartbeats
        [Open \<lparr>now_response = 0, now_error = 0, parse = (\<lambda>r. Inl BadStatusLine)\<rparr>,
         Pulse 100 100 \<lparr>now_response = 0, now_error = 0, parse = (\<lambda>r. Inl BadStatusLine)\<rparr>,
         Pulse 131 131 \<lparr>now_response = 0, now_error = 0, parse = (\<lambda>r. Inl BadStatusLine)\<rparr>,
         Drain None,
         Pulse 140 140 \<lparr>now_response = 0, now_error = 0, parse = (\<lambda>r. Inl BadStatusLine)\<rparr>,
         Pulse 162 162 \<lparr>now_response = 0, now_error = 0, parse = (\<lambda>r. Inl BadStatusLine)\<rparr>]
        (StreamWriter_default ''tok'' ''host'' 0 0) = [131, 162]
   \<and> spaced (heartbeats
        [Open \<lparr>now_response = 0, now_error = 0, parse = (\<lambda>r. Inl BadStatusLine)\<rparr>,
         Pulse 100 100 \<lparr>now_response = 0, now_error = 0, parse = (\<lambda>r. Inl BadStatusLine)\<rparr>,
         Pulse 131 131 \<lparr>now_response = 0, now_error = 0, parse = (\<lambda>r. Inl BadStatusLine)\<rparr>,
         Drain None,
         Pulse 140 140 \<lparr>now_response = 0, now_error = 0, parse = (\<lambda>r. Inl BadStatusLine)\<rparr>,
         Pulse 162 162 \<lparr>now_response = 0, now_error = 0, parse = (\<lambda>r. Inl BadStatusLine)\<rparr>]
        (StreamWriter_default ''tok'' ''host'' 0 0))"
proof -
  let ?w = "\<lparr>now_response = 0, now_error = 0, parse = (\<lambda>r. Inl BadStatusLine)\<rparr>"
  let ?cs = "[Open ?w, Pulse 100 100 ?w, Pulse 131 131 ?w, Drain None, Pulse 140 140 ?w, Pulse 162 162 ?w]"
  let ?s0 = "StreamWriter_default ''tok'' ''host'' 0 0"
  have ch: "chrono 0 ?cs" by simp
  have hb: "heartbeats ?cs ?s0 = [131, 162]"
    by (simp add: StreamWriter_default_def StreamWriter_init_def default_queue_length_def
        deque_new_def StreamWriter_open_def sw_connected_def raise_for_response_def
        raise_for_error_def reset_def check_pulse_unfold beat_of_def StreamWriter_write_def
        appendleft_def add_newline_def StreamWriter__write_def pop_def Let_def)
  show ?thesis
    using heartbeat_only_when_idle_and_spaced [of 0 0 ?w ?s0 0 ?cs] ch hb by simp
qed


subsection \<open>Failures of the worker and the next open\<close>

lemma open_connected: "sw_connected s \<Longrightarrow> StreamWriter_open w s = (None, s)"
  by (simp add: StreamWriter_open_def)

lemma open_stored_error:
  assumes "\<not> sw_connected s" and "response s = None" and "error s = Some e"
  shows "StreamWriter_open w s =
           (if \<not> isinstance_of e (ignore_errors s) then (Some e, s)
            else if isinstance_of e [''socket.error'']
            then (case back_off_linearly (now_error w) s of
                    (Some x, s1) \<Rightarrow> (Some x, s1)
                  | (None, s1) \<Rightarrow>
                      (None, (reset s1)\<lparr>thread := Some \<lparr>isAlive = True, thread_connected = True\<rparr>\<rparr>))
            else (None, (reset s)\<lparr>thread := Some \<lparr>isAlive = True, thread_connected = True\<rparr>\<rparr>))"
proof -
  have rr: "raise_for_response w s = (None, s)"
    using assms(2) by (simp add: raise_for_response_def)
  show ?thesis
    using assms(1,3)
    by (cases "back_off_linearly (now_error w) s")
       (auto simp: StreamWriter_open_def rr raise_for_error_def split: option.splits)
qed

lemma read_write_captures:
  assumes "read_write_body conn first bare turns s = Some (Some e, s1)"
    and "isinstance_of e [''Exception'']"
  shows "read_write conn first bare turns s
           = Some (None, s1\<lparr>error := Some e,
                           writer := map_option (\<lambda>t. t\<lparr>closed := True\<rparr>) (writer s1)\<rparr>)"
  using assms by (simp add: read_write_def)

lemma writer_write_ok:
  "writer s = Some t \<Longrightarrow> writer_write d s = (None, s\<lparr>writer := Some (t\<lparr>written := written t @ [d]\<rparr>)\<rparr>)"
  by (simp add: writer_write_def)

lemma write_headers_ok:
  "writer s = Some t \<Longrightarrow> \<exists>t'. write_headers hs s = (None, s\<lparr>writer := Some t'\<rparr>)"
proof (induction hs arbitrary: s t)
  case Nil
  then show ?case by (intro exI [of _ t]) simp
next
  case (Cons hv hs)
  obtain header header_value where hv: "hv = (header, header_value)" by (cases hv)
  let ?t2 = "t\<lparr>written := written t @ [header @ '': '' @ header_value] @ [eol]\<rparr>"
  let ?s2 = "s\<lparr>writer := Some ?t2\<rparr>"
  have two: "write_headers (hv # hs) s = write_headers hs ?s2"
    using Cons.prems by (simp add: hv writer_write_def)
  have "writer ?s2 = Some ?t2" by simp
  from Cons.IH [OF this] obtain t' where "write_headers hs ?s2 = (None, ?s2\<lparr>writer := Some t'\<rparr>)"
    by blast
  then show ?case by (intro exI [of _ t']) (simp add: two)
qed

lemma initial_write_ok:
  "writer s = Some t \<Longrightarrow> \<exists>t'. initial_write s = (None, s\<lparr>writer := Some t'\<rparr>)"
proof -
  assume w: "writer s = Some t"
  let ?t2 = "t\<lparr>written := written t @ [''POST / HTTP/1.1''] @ [eol]\<rparr>"
  let ?s2 = "s\<lparr>writer := Some ?t2\<rparr>"
  have "writer ?s2 = Some ?t2" by simp
  from write_headers_ok [OF this, of "headers s"] obtain t3
    where h: "write_headers (headers s) ?s2 = (None, ?s2\<lparr>writer := Some t3\<rparr>)" by blast
  have "initial_write s = writer_write eol (s\<lparr>writer := Some t3\<rparr>)"
    using w h by (simp add: initial_write_def writer_write_def)
  then show ?thesis
    by (intro exI [of _ "t3\<lparr>written := written t3 @ [eol]\<rparr>"]) (simp add: writer_write_def)
qed

lemma loop_ends_on_response:
  "response s = Some d \<Longrightarrow> \<exists>q. read_write_loop bare turns s = Some (None, s\<lparr>queue := q\<rparr>)"
proof (cases turns)
  case Nil
  assume "response s = Some d"
  then show ?thesis using Nil by (intro exI [of _ "queue s"]) simp
next
  case (Cons i rest)
  assume "response s = Some d"
  then show ?thesis
    using Cons by (intro exI [of _ "fold appendleft (incoming i) (queue s)"]) (simp add: Let_def)
qed

lemma first_read_stored:
  "\<exists>s'. read_write (Inr u) (Inr (Some d)) bare turns s = Some (None, s')
        \<and> response s' = Some d \<and> error s' = error s"
proof -
  let ?s1 = "s\<lparr>reader := Some (), writer := Some \<lparr>written = [], closed = False\<rparr>\<rparr>"
  have "writer ?s1 = Some \<lparr>written = [], closed = False\<rparr>" by simp
  from initial_write_ok [OF this] obtain t' where
    iw: "initial_write ?s1 = (None, ?s1\<lparr>writer := Some t'\<rparr>)" by blast
  let ?s2 = "?s1\<lparr>writer := Some t', response := Some d\<rparr>"
  have "response ?s2 = Some d" by simp
  from loop_ends_on_response [OF this, of bare turns] obtain q where
    lp: "read_write_loop bare turns ?s2 = Some (None, ?s2\<lparr>queue := q\<rparr>)" by blast
  have "read_write_body (Inr u) (Inr (Some d)) bare turns s = Some (None, ?s2\<lparr>queue := q\<rparr>)"
    using iw lp by (simp add: read_write_body_def)
  then show ?thesis
    by (simp add: read_write_def)
qed

lemma drain_keeps_response: "response (snd (StreamWriter__write bare s)) = response s"
proof (cases "items (queue s) = []")
  case True
  then show ?thesis by (simp add: drain_empty)
next
  case False
  let ?c = "last (items (queue s))"
  let ?s1 = "s\<lparr>queue := (queue s)\<lparr>items := butlast (items (queue s))\<rparr>, chunk := Some ?c\<rparr>"
  have "snd (StreamWriter__write bare s) = ?s1
     \<or> (\<exists>d. snd (StreamWriter__write bare s) = snd (writer_write d ?s1))"
    using False
    by (cases "writer s"; cases bare; cases "format_message (format_x (len ?c)) ?c")
       (auto simp: StreamWriter__write_def pop_def Let_def encode_utf8_def)
  then show ?thesis
    by (auto simp: writer_write_def split: option.splits)
qed

lemma turn_read_stored:
  assumes "response s = None" and "still_connected i"
    and "check_pulse (pulse_t1 i) (pulse_t2 i) (pulse_world i)
           (s\<lparr>queue := fold appendleft (incoming i) (queue s)\<rparr>) = (None, s1)"
    and "read_result i = Inr (Some d)"
  shows "\<exists>r s'. read_write_loop bare (i # rest) s = Some (r, s') \<and> response s' = Some d"
proof -
  obtain r2 s2 where w: "StreamWriter__write bare (s1\<lparr>response := Some d\<rparr>) = (r2, s2)"
    by (cases "StreamWriter__write bare (s1\<lparr>response := Some d\<rparr>)")
  have "response s2 = response (s1\<lparr>response := Some d\<rparr>)"
    using drain_keeps_response [of bare "s1\<lparr>response := Some d\<rparr>"] w by simp
  then have rs: "response s2 = Some d" by simp
  show ?thesis
  proof (cases r2)
    case None
    from loop_ends_on_response [OF rs, of bare rest] obtain q where
      "read_write_loop bare rest s2 = Some (None, s2\<lparr>queue := q\<rparr>)" by blast
    then have "read_write_loop bare (i # rest) s = Some (None, s2\<lparr>queue := q\<rparr>)"
      using assms w None by (simp add: Let_def)
    then show ?thesis using rs by simp
  next
    case (Some e)
    have "read_write_loop bare (i # rest) s = Some (Some e, s2)"
      using assms w Some by (simp add: Let_def)
    then show ?thesis using rs by simp
  qed
qed

text \<open>
  What the worker stores and what the next \<^verbatim>\<open>open\<close> does with a stored error: an
  exception of class \<^verbatim>\<open>Exception\<close> raised in the \<^verbatim>\<open>try\<close> block is stored in
  \<^verbatim>\<open>_error\<close> and the thread ends; \<^verbatim>\<open>open\<close> on a connected instance changes
  nothing; on an instance that is not connected and has no stored response, a stored
  error outside \<^verbatim>\<open>ignore_errors\<close> is raised again and the instance stays as it is,
  and an ignorable \<^verbatim>\<open>socket.error\<close> gives the linear back-off before the reset.
\<close>

lemma worker_failure_and_open:
  "(read_write_body conn first bare turns s = Some (Some e, s1) \<and> isinstance_of e [''Exception''] \<longrightarrow>
      read_write conn first bare turns s
        = Some (None, s1\<lparr>error := Some e,
                         writer := map_option (\<lambda>t. t\<lparr>closed := True\<rparr>) (writer s1)\<rparr>)
      \<and> thread_func conn first bare turns s
        = Some (None, s1\<lparr>error := Some e,
                         writer := map_option (\<lambda>t. t\<lparr>closed := True\<rparr>) (writer s1),
                         thread := map_option (\<lambda>t. t\<lparr>isAlive := False\<rparr>) (thread s1)\<rparr>))
   \<and> (sw_connected s \<longrightarrow> StreamWriter_open w s = (None, s))
   \<and> (\<not> sw_connected s \<and> response s = None \<and> error s = Some e \<longrightarrow>
        StreamWriter_open w s =
           (if \<not> isinstance_of e (ignore_errors s) then (Some e, s)
            else if isinstance_of e [''socket.error'']
            then (case back_off_linearly (now_error w) s of
                    (Some x, s2) \<Rightarrow> (Some x, s2)
                  | (None, s2) \<Rightarrow>
                      (None, (reset s2)\<lparr>thread := Some \<lparr>isAlive = True, thread_connected = True\<rparr>\<rparr>))
            else (None, (reset s)\<lparr>thread := Some \<lparr>isAlive = True, thread_connected = True\<rparr>\<rparr>)))"
  using read_write_captures [of conn first bare turns s e s1] open_connected [of s w]
    open_stored_error [of s e w]
  by (auto simp: thread_func_def)

text \<open>
  A connect failure with the default settings: the worker stores the
  \<^verbatim>\<open>socket.error\<close>, and the next \<^verbatim>\<open>open\<close> raises it.
\<close>

lemma socket_error_raised_again:
  "thread_func (Inl socket_error) (Inr None) None []
     ((StreamWriter_default ''tok'' ''host'' 0 0)
        \<lparr>thread := Some \<lparr>isAlive = True, thread_connected = True\<rparr>\<rparr>)
   = Some (None,
       (StreamWriter_default ''tok'' ''host'' 0 0)
         \<lparr>thread := Some \<lparr>isAlive = False, thread_connected = True\<rparr>, error := Some socket_error\<rparr>)
   \<and> StreamWriter_open \<lparr>now_response = 1, now_error = 1, parse = (\<lambda>r. Inl BadStatusLine)\<rparr>
       ((StreamWriter_default ''tok'' ''host'' 0 0)
         \<lparr>thread := Some \<lparr>isAlive = False, thread_connected = True\<rparr>, error := Some socket_error\<rparr>)
   = (Some socket_error,
       (StreamWriter_default ''tok'' ''host'' 0 0)
         \<lparr>thread := Some \<lparr>isAlive = False, thread_connected = True\<rparr>, error := Some socket_error\<rparr>)"
proof -
  let ?w = "\<lparr>now_response = 1, now_error = 1, parse = (\<lambda>r. Inl BadStatusLine)\<rparr>"
  let ?s1 = "(StreamWriter_default ''tok'' ''host'' 0 0)
        \<lparr>thread := Some \<lparr>isAlive = True, thread_connected = True\<rparr>\<rparr>"
  let ?s2 = "(StreamWriter_default ''tok'' ''host'' 0 0)
         \<lparr>thread := Some \<lparr>isAlive = False, thread_connected = True\<rparr>, error := Some socket_error\<rparr>"
  have b: "read_write_body (Inl socket_error) (Inr None) None [] ?s1 = Some (Some socket_error, ?s1)"
    by (simp add: read_write_body_def)
  have i: "isinstance_of socket_error [''Exception'']"
    by (simp add: isinstance_of_def socket_error_def)
  have f: "StreamWriter_default ''tok'' ''host'' 0 0
           = StreamWriter_init ''tok'' [None, Some 200] [] 500 4 ''host'' 0 0"
    by (simp add: StreamWriter_default_def default_ignore_status_codes_def default_ignore_errors_def
        default_queue_length_def default_initial_write_timeout_def)
  have c: "\<not> sw_connected ?s2" "response ?s2 = None" "error ?s2 = Some socket_error"
    "ignore_errors ?s2 = []" "writer ?s1 = None"
    by (simp_all add: f StreamWriter_init_def sw_connected_def)
  have n: "\<not> isinstance_of socket_error []"
    by (simp add: isinstance_of_def)
  show ?thesis
    using worker_failure_and_open
            [of "Inl socket_error" "Inr None" None "[]" ?s1 socket_error ?s1 ?w]
      worker_failure_and_open
            [of "Inl socket_error" "Inr None" None "[]" ?s2 socket_error ?s1 ?w]
      b i c n
    by (simp add: f StreamWriter_init_def)
qed

text \<open>
  Claim C8 asks that a failure of the worker, stored in the instance, is raised again
  by the next \<^verbatim>\<open>open\<close>, with a back-off where the failure is ignorable, before the
  reset and the new thread. With \<^verbatim>\<open>ValueError\<close> among the ignorable classes and a stored
  \<^verbatim>\<open>UnicodeEncodeError\<close>, \<^verbatim>\<open>open\<close> raises nothing and backs off for nothing: no
  sleep, both counters still zero, the error cleared and the thread started. The same
  call with an ignorable \<^verbatim>\<open>socket.error\<close> sleeps a quarter of a second first.
\<close>

theorem ignorable_error_not_backed_off:
  "fst (StreamWriter_open \<lparr>now_response = 1, now_error = 1, parse = (\<lambda>r. Inl BadStatusLine)\<rparr>
     ((StreamWriter_init ''tok'' [None, Some 200] [''ValueError''] 500 4 ''host'' 0 0)
        \<lparr>error := Some UnicodeEncodeError\<rparr>)) = None
   \<and> slept (snd (StreamWriter_open \<lparr>now_response = 1, now_error = 1, parse = (\<lambda>r. Inl BadStatusLine)\<rparr>
     ((StreamWriter_init ''tok'' [None, Some 200] [''ValueError''] 500 4 ''host'' 0 0)
        \<lparr>error := Some UnicodeEncodeError\<rparr>))) = []
   \<and> connect_errors (snd (StreamWriter_open \<lparr>now_response = 1, now_error = 1, parse = (\<lambda>r. Inl BadStatusLine)\<rparr>
     ((StreamWriter_init ''tok'' [None, Some 200] [''ValueError''] 500 4 ''host'' 0 0)
        \<lparr>error := Some UnicodeEncodeError\<rparr>))) = 0
   \<and> disconnections (snd (StreamWriter_open \<lparr>now_response = 1, now_error = 1, parse = (\<lambda>r. Inl BadStatusLine)\<rparr>
     ((StreamWriter_init ''tok'' [None, Some 200] [''ValueError''] 500 4 ''host'' 0 0)
        \<lparr>error := Some UnicodeEncodeError\<rparr>))) = 0
   \<and> error (snd (StreamWriter_open \<lparr>now_response = 1, now_error = 1, parse = (\<lambda>r. Inl BadStatusLine)\<rparr>
     ((StreamWriter_init ''tok'' [None, Some 200] [''ValueError''] 500 4 ''host'' 0 0)
        \<lparr>error := Some UnicodeEncodeError\<rparr>))) = None
   \<and> thread (snd (StreamWriter_open \<lparr>now_response = 1, now_error = 1, parse = (\<lambda>r. Inl BadStatusLine)\<rparr>
     ((StreamWriter_init ''tok'' [None, Some 200] [''ValueError''] 500 4 ''host'' 0 0)
        \<lparr>error := Some UnicodeEncodeError\<rparr>))) = Some \<lparr>isAlive = True, thread_connected = True\<rparr>
   \<and> slept (snd (StreamWriter_open \<lparr>now_response = 1, now_error = 1, parse = (\<lambda>r. Inl BadStatusLine)\<rparr>
     ((StreamWriter_init ''tok'' [None, Some 200] [''socket.error''] 500 4 ''host'' 0 0)
        \<lparr>error := Some socket_error\<rparr>))) = [0.25]"
proof -
  let ?w = "\<lparr>now_response = 1, now_error = 1, parse = (\<lambda>r. Inl BadStatusLine)\<rparr>"
  let ?s = "(StreamWriter_init ''tok'' [None, Some 200] [''ValueError''] 500 4 ''host'' 0 0)
        \<lparr>error := Some UnicodeEncodeError\<rparr>"
  let ?s' = "(StreamWriter_init ''tok'' [None, Some 200] [''socket.error''] 500 4 ''host'' 0 0)
        \<lparr>error := Some socket_error\<rparr>"
  have a: "StreamWriter_open ?w ?s
           = (None, (StreamWriter_init ''tok'' [None, Some 200] [''ValueError''] 500 4 ''host'' 0 0)
                      \<lparr>thread := Some \<lparr>isAlive = True, thread_connected = True\<rparr>\<rparr>)"
    by (simp add: StreamWriter_open_def StreamWriter_init_def sw_connected_def raise_for_response_def
        raise_for_error_def isinstance_of_def UnicodeEncodeError_def reset_def)
  have b: "slept (snd (StreamWriter_open ?w ?s')) = [0.25]"
    by (simp add: StreamWriter_open_def StreamWriter_init_def sw_connected_def raise_for_response_def
        raise_for_error_def isinstance_of_def socket_error_def reset_def back_off_linearly_def
        Let_def linear_wait_max_def linear_back_off_rate_def)
  show ?thesis
    unfolding a using b by (simp add: StreamWriter_init_def)
qed

end
